theory Spec2Isabelle
  imports Complex_Main "HOL-Library.Sublist" "HOL-Library.Word"
begin

chapter \<open>The synthesizer engine\<close>

section \<open>Sample table\<close>

text \<open>
  The synthesizer bundle keeps decoded sample buffers and the per-(bank, instrument, key)
  synthesis parameters in \<open>SampleTable\<close>. JavaScript numbers are modelled by exact
  numbers: \<open>int\<close> for identifiers, MIDI keys, velocities, banks and channels, \<open>real\<close>
  for audio quantities and times, with binary64 rounding where the section on numbers
  says. JavaScript objects used as dictionaries are maps; \<open>undefined\<close> is \<open>None\<close>.
\<close>

datatype loop_type = no_loop | loop_continuous | loop_sustain

record loop =
  loop_type :: loop_type
  loop_start :: real
  loop_end :: real

record envelope_parameter =
  attackTime :: real
  holdTime :: real
  decayTime :: real
  sustainLevel :: real
  releaseTime :: real

text \<open>The fields of a sample parameter that the engine reads.\<close>

record sample_parameter =
  sampleID :: int
  sample_pitch :: real
  scaleTuning :: real
  sampleStart :: real
  sampleEnd :: real
  sample_loop :: loop
  sample_sampleRate :: real
  sample_volume :: real
  sample_pan :: real
  exclusiveClass :: "int option"
  amplitudeEnvelope :: envelope_parameter

text \<open>
  \<open>addSampleParameter\<close> stores \<open>{...parameter, velRange}\<close>; \<open>getSamples\<close> returns
  \<open>{...parameter, buffer}\<close> for a stored entry. The spread is modelled by nesting.
\<close>

record registered_parameter =
  parameter :: sample_parameter
  velRange :: "int \<times> int"

record sample =
  registered :: registered_parameter
  buffer :: "real list"

record sample_range =
  range_bank :: int
  range_instrument :: int
  keyRange :: "int \<times> int"
  range_velRange :: "int \<times> int"

type_synonym key_table = "int \<rightharpoonup> registered_parameter list"
type_synonym instrument_table = "int \<rightharpoonup> key_table"
type_synonym bank_table = "int \<rightharpoonup> instrument_table"

record SampleTable =
  samples :: "int \<rightharpoonup> real list"
  sampleParameters :: bank_table

definition empty_SampleTable :: SampleTable where
  "empty_SampleTable = \<lparr>samples = Map.empty, sampleParameters = Map.empty\<rparr>"

definition addSample :: "real list \<Rightarrow> int \<Rightarrow> SampleTable \<Rightarrow> SampleTable" where
  "addSample data sid t = t\<lparr>samples := (samples t)(sid \<mapsto> data)\<rparr>"

text \<open>One iteration of the loop of \<open>addSampleParameter\<close>, for key \<open>i\<close>.\<close>

definition push_parameter ::
  "int \<Rightarrow> int \<Rightarrow> registered_parameter \<Rightarrow> bank_table \<Rightarrow> int \<Rightarrow> bank_table" where
  "push_parameter bank instrument r sp i =
     (let banks = (case sp bank of None \<Rightarrow> Map.empty | Some m \<Rightarrow> m);
          keys = (case banks instrument of None \<Rightarrow> Map.empty | Some m \<Rightarrow> m);
          entries = (case keys i of None \<Rightarrow> [] | Some l \<Rightarrow> l)
      in sp(bank \<mapsto> banks(instrument \<mapsto> keys(i \<mapsto> entries @ [r]))))"

definition addSampleParameter ::
  "sample_parameter \<Rightarrow> sample_range \<Rightarrow> SampleTable \<Rightarrow> SampleTable" where
  "addSampleParameter p rg t =
     t\<lparr>sampleParameters :=
         foldl (push_parameter (range_bank rg) (range_instrument rg)
                  \<lparr>parameter = p, velRange = range_velRange rg\<rparr>)
               (sampleParameters t) [fst (keyRange rg) .. snd (keyRange rg)]\<rparr>"

text \<open>\<open>sampleParameters[bank]?.[instrument]\<close>.\<close>

definition instrument_lookup :: "bank_table \<Rightarrow> int \<Rightarrow> int \<Rightarrow> key_table option" where
  "instrument_lookup sp bank instrument =
     (case sp bank of None \<Rightarrow> None | Some m \<Rightarrow> m instrument)"

definition velocity_matches :: "int \<Rightarrow> registered_parameter \<Rightarrow> bool" where
  "velocity_matches velocity s \<longleftrightarrow> velocity \<ge> fst (velRange s) \<and> velocity \<le> snd (velRange s)"

text \<open>
  The \<open>for\<close> loop of \<open>getSamples\<close>: a parameter whose sample buffer is not loaded is
  skipped (the source warns and continues).
\<close>

fun attach_buffers :: "(int \<rightharpoonup> real list) \<Rightarrow> registered_parameter list \<Rightarrow> sample list" where
  "attach_buffers sm [] = []"
| "attach_buffers sm (r # rs) =
     (case sm (sampleID (parameter r)) of
        None \<Rightarrow> attach_buffers sm rs
      | Some b \<Rightarrow> \<lparr>registered = r, buffer = b\<rparr> # attach_buffers sm rs)"

definition getSamples :: "SampleTable \<Rightarrow> int \<Rightarrow> int \<Rightarrow> int \<Rightarrow> int \<Rightarrow> sample list" where
  "getSamples t bank instrument pitch velocity =
     (let instrumentParameters =
            (case instrument_lookup (sampleParameters t) bank instrument of
               Some ip \<Rightarrow> Some ip
             | None \<Rightarrow> instrument_lookup (sampleParameters t) 0 instrument);
          parameters =
            (case instrumentParameters of
               None \<Rightarrow> []
             | Some ip \<Rightarrow>
                 (case ip pitch of
                    None \<Rightarrow> []
                  | Some l \<Rightarrow> filter (velocity_matches velocity) l))
      in attach_buffers (samples t) parameters)"

text \<open>The parameters registered at (bank, instrument, key), in registration order.\<close>

definition registered_at :: "SampleTable \<Rightarrow> int \<Rightarrow> int \<Rightarrow> int \<Rightarrow> registered_parameter list" where
  "registered_at t bank instrument key =
     (case instrument_lookup (sampleParameters t) bank instrument of
        None \<Rightarrow> []
      | Some ip \<Rightarrow> (case ip key of None \<Rightarrow> [] | Some l \<Rightarrow> l))"


section \<open>Numbers\<close>

text \<open>
  A JavaScript number is an IEEE 754 binary64 value, and every arithmetic operation
  returns the binary64 value nearest to the exact result, a tie going to the value with
  an even significand. \<open>double x\<close> is that value for the real \<open>x\<close>: \<open>binade x\<close> is the
  exponent of a positive \<open>x\<close> (the integer \<open>b\<close> with \<open>2 powi b \<le> x < 2 powi (b + 1)\<close>), the
  significand has 53 bits, and below \<open>2 powi (- 1022)\<close> the spacing stays
  \<open>2 powi (- 1074)\<close> (gradual underflow). The exponent is not bounded above: overflow to
  an infinity is not modelled.

  The two linear ramps of the amplitude envelope, attack and forced stop, count calls
  until a threshold is reached, which depends on the rounding; they are computed with
  \<open>double\<close> after every operation, as the source computes them. All other arithmetic is
  over exact reals.
\<close>

function binade :: "real \<Rightarrow> int" where
  "binade x = (if x \<le> 0 then 0
               else if 2 \<le> x then binade (x / 2) + 1
               else if x < 1 then binade (2 * x) - 1
               else 0)"
  by pat_completeness auto
termination
proof (relation "measure (\<lambda>x. if 1 \<le> x then nat \<lfloor>x\<rfloor> else nat \<lfloor>1 / x\<rfloor> + 1)")
  show "wf (measure (\<lambda>x :: real. if 1 \<le> x then nat \<lfloor>x\<rfloor> else nat \<lfloor>1 / x\<rfloor> + 1))" by simp
next
  fix x :: real
  assume "\<not> x \<le> 0" "2 \<le> x"
  then have "\<lfloor>x / 2\<rfloor> < \<lfloor>x\<rfloor>" "0 < \<lfloor>x\<rfloor>" by linarith+
  then show "(x / 2, x) \<in> measure (\<lambda>x. if 1 \<le> x then nat \<lfloor>x\<rfloor> else nat \<lfloor>1 / x\<rfloor> + 1)"
    using \<open>2 \<le> x\<close> by simp
next
  fix x :: real
  assume a: "\<not> x \<le> 0" "\<not> 2 \<le> x" "x < 1"
  show "(2 * x, x) \<in> measure (\<lambda>x. if 1 \<le> x then nat \<lfloor>x\<rfloor> else nat \<lfloor>1 / x\<rfloor> + 1)"
  proof (cases "1 \<le> 2 * x")
    case True
    with a have "\<lfloor>2 * x\<rfloor> = 1" by linarith
    moreover have "1 < 1 / x" using a by simp
    then have "1 \<le> \<lfloor>1 / x\<rfloor>" by linarith
    ultimately show ?thesis using a True by simp
  next
    case False
    then have "2 < 1 / x" using a by (simp add: field_simps)
    have h: "\<lfloor>y / 2\<rfloor> < \<lfloor>y\<rfloor>" if "2 < y" for y :: real
      using that by linarith
    from \<open>2 < 1 / x\<close> have "\<lfloor>1 / x / 2\<rfloor> < \<lfloor>1 / x\<rfloor>" by (rule h)
    moreover have "1 / (2 * x) = 1 / x / 2" by simp
    then have "\<lfloor>1 / (2 * x)\<rfloor> = \<lfloor>1 / x / 2\<rfloor>" by (simp only:)
    moreover have "0 < \<lfloor>1 / x\<rfloor>" using \<open>2 < 1 / x\<close> by linarith
    ultimately show ?thesis using a False by simp
  qed
qed

declare binade.simps [simp del]

definition round_ties_even :: "real \<Rightarrow> int" where
  "round_ties_even y =
     (let f = \<lfloor>y\<rfloor>; r = y - of_int f
      in if r < 1 / 2 \<or> (r = 1 / 2 \<and> even f) then f else f + 1)"

definition double :: "real \<Rightarrow> real" where
  "double x =
     (let e = max (binade \<bar>x\<bar> - 52) (- 1074)
      in of_int (round_ties_even (x / 2 powi e)) * 2 powi e)"

section \<open>Amplitude envelope\<close>

text \<open>
  NaN and the infinities are not modelled, so the definitions agree with the source
  where no division by zero and no logarithm of a non-positive number occurs.

  \<open>AmplitudeEnvelope.getAmplitude\<close> ends with
  \<^verbatim>\<open>this.phaseTime += bufferSize / sampleRate\<close>: the identifier \<open>sampleRate\<close> is not
  \<open>this.sampleRate\<close> and is bound nowhere in the bundle, so it is resolved in the global
  scope of the hosting environment. That ambient binding is a parameter of the model:
  \<open>Some r\<close> when the global scope defines \<open>sampleRate\<close> (an audio worklet scope does),
  \<open>None\<close> when it does not, in which case evaluating the identifier raises
  \<open>ReferenceError\<close>.
\<close>

datatype error = ReferenceError | RangeError | RenderCancelled

datatype EnvelopePhase =
  phase_attack | phase_hold | phase_decay | phase_sustain | phase_release
  | phase_forceStop | phase_stopped

text \<open>The constant is the literal \<open>0.1\<close>, which denotes the binary64 value nearest to 1/10.\<close>

definition forceStopReleaseTime :: real where
  "forceStopReleaseTime = double 0.1"

record AmplitudeEnvelope =
  env_parameter :: envelope_parameter
  phase :: EnvelopePhase
  env_isNoteOff :: bool
  phaseTime :: real
  decayLevel :: real
  lastAmplitude :: real
  env_sampleRate :: real

definition new_AmplitudeEnvelope :: "envelope_parameter \<Rightarrow> real \<Rightarrow> AmplitudeEnvelope" where
  "new_AmplitudeEnvelope p sr =
     \<lparr>env_parameter = p, phase = phase_stopped, env_isNoteOff = False, phaseTime = 0,
      decayLevel = 0, lastAmplitude = 0, env_sampleRate = sr\<rparr>"

text \<open>The setter of \<open>phase\<close>: a change of phase resets the phase time.\<close>

definition set_phase :: "EnvelopePhase \<Rightarrow> AmplitudeEnvelope \<Rightarrow> AmplitudeEnvelope" where
  "set_phase p e = (if phase e = p then e else e\<lparr>phase := p, phaseTime := 0\<rparr>)"

definition env_noteOn :: "AmplitudeEnvelope \<Rightarrow> AmplitudeEnvelope" where
  "env_noteOn e =
     (set_phase phase_attack e)
       \<lparr>env_isNoteOff := False, phaseTime := 0,
        decayLevel := sustainLevel (env_parameter e)\<rparr>"

definition env_noteOff :: "AmplitudeEnvelope \<Rightarrow> AmplitudeEnvelope" where
  "env_noteOff e = e\<lparr>env_isNoteOff := True\<rparr>"

definition env_forceStop :: "AmplitudeEnvelope \<Rightarrow> AmplitudeEnvelope" where
  "env_forceStop e = set_phase phase_forceStop e"

definition decibelToLinear :: "real \<Rightarrow> real" where
  "decibelToLinear v = 10 powr (v / 20)"

definition linearToDecibel :: "real \<Rightarrow> real" where
  "linearToDecibel v = 20 * log 10 v"

definition logAttenuation :: "real \<Rightarrow> real \<Rightarrow> real \<Rightarrow> real \<Rightarrow> real" where
  "logAttenuation fromLevel attenuationDecibel duration time =
     fromLevel * decibelToLinear ((attenuationDecibel / duration) * time)"

definition calculateAmplitude :: "nat \<Rightarrow> AmplitudeEnvelope \<Rightarrow> real \<times> AmplitudeEnvelope" where
  "calculateAmplitude bufferSize e0 =
     (let p = env_parameter e0;
          sr = env_sampleRate e0;
          e = (if env_isNoteOff e0 \<and> (phase e0 = phase_decay \<or> phase e0 = phase_sustain)
               then (set_phase phase_release e0)\<lparr>decayLevel := lastAmplitude e0\<rparr>
               else e0)
      in case phase e of
           phase_attack \<Rightarrow>
             (let amplificationPerFrame =
                    double (double (1 / double (attackTime p * sr)) * real bufferSize);
                  v = double (lastAmplitude e + amplificationPerFrame)
              in if v \<ge> 1 then (1, set_phase phase_hold e) else (v, e))
         | phase_hold \<Rightarrow>
             (if phaseTime e \<ge> holdTime p
              then (lastAmplitude e, set_phase phase_decay e)
              else (lastAmplitude e, e))
         | phase_decay \<Rightarrow>
             (let attenuationDecibel = linearToDecibel (sustainLevel p / 1);
                  v = logAttenuation 1.0 attenuationDecibel (decayTime p) (phaseTime e)
              in if phaseTime e > decayTime p
                 then (if sustainLevel p \<le> 0
                       then (0, set_phase phase_stopped e)
                       else (sustainLevel p, set_phase phase_sustain e))
                 else (v, e))
         | phase_sustain \<Rightarrow> (sustainLevel p, e)
         | phase_release \<Rightarrow>
             (let v = logAttenuation (decayLevel e) (- 100) (releaseTime p) (phaseTime e)
              in if phaseTime e > releaseTime p \<or> v \<le> 0
                 then (0, set_phase phase_stopped e)
                 else (v, e))
         | phase_forceStop \<Rightarrow>
             (let attenuationPerFrame =
                    double (double (1 / double (forceStopReleaseTime * sr)) * real bufferSize);
                  v = double (lastAmplitude e - attenuationPerFrame)
              in if v \<le> 0 then (0, set_phase phase_stopped e) else (v, e))
         | phase_stopped \<Rightarrow> (0, e))"

text \<open>
  \<open>getAmplitude\<close>, with the ambient \<open>sampleRate\<close> as first argument. The exception
  leaves the function before it returns, so no amplitude is produced in that case.
\<close>

definition getAmplitude ::
  "real option \<Rightarrow> nat \<Rightarrow> AmplitudeEnvelope \<Rightarrow> error + (real \<times> AmplitudeEnvelope)" where
  "getAmplitude ambient bufferSize e =
     (let (v, e1) = calculateAmplitude bufferSize e;
          e2 = e1\<lparr>lastAmplitude := v\<rparr>
      in case ambient of
           None \<Rightarrow> Inl ReferenceError
         | Some sampleRate \<Rightarrow>
             Inr (v, e2\<lparr>phaseTime := phaseTime e2 + real bufferSize / sampleRate\<rparr>))"

definition env_isPlaying :: "AmplitudeEnvelope \<Rightarrow> bool" where
  "env_isPlaying e \<longleftrightarrow> phase e \<noteq> phase_stopped"

text \<open>\<open>n\<close> successive calls of \<open>getAmplitude\<close>, collecting the returned amplitudes.\<close>

fun getAmplitudes ::
  "real option \<Rightarrow> nat \<Rightarrow> nat \<Rightarrow> AmplitudeEnvelope \<Rightarrow> error + (real list \<times> AmplitudeEnvelope)" where
  "getAmplitudes ambient bufferSize 0 e = Inr ([], e)"
| "getAmplitudes ambient bufferSize (Suc n) e =
     (case getAmplitude ambient bufferSize e of
        Inl err \<Rightarrow> Inl err
      | Inr (v, e1) \<Rightarrow>
          (case getAmplitudes ambient bufferSize n e1 of
             Inl err \<Rightarrow> Inl err
           | Inr (vs, e2) \<Rightarrow> Inr (v # vs, e2)))"

section \<open>Low-frequency oscillator\<close>

record LFO =
  frequency :: real
  lfo_phase :: real
  lfo_sampleRate :: real

definition new_LFO :: "real \<Rightarrow> LFO" where
  "new_LFO sr = \<lparr>frequency = 5, lfo_phase = 0, lfo_sampleRate = sr\<rparr>"

definition getValue :: "nat \<Rightarrow> LFO \<Rightarrow> real \<times> LFO" where
  "getValue bufferSize l =
     (sin (lfo_phase l),
      l\<lparr>lfo_phase := lfo_phase l
           + ((pi * 2 * frequency l) / lfo_sampleRate l) * real bufferSize\<rparr>)"

section \<open>Wavetable oscillator\<close>

record WavetableOscillator =
  osc_sample :: sample
  sampleIndex :: real
  osc_playing :: bool
  osc_noteOffFlag :: bool
  baseSpeed :: real
  envelope :: AmplitudeEnvelope
  pitchLFO :: LFO
  osc_sampleRate :: real
  osc_speed :: real
  osc_velocity :: real
  osc_volume :: real
  osc_modulation :: real
  modulationDepthRange :: real
  osc_pan :: real
  isHold :: bool

text \<open>
  \<open>osc_playing\<close> and \<open>osc_noteOffFlag\<close> are the private fields \<open>_isPlaying\<close> and
  \<open>_isNoteOff\<close>. The sample of an oscillator is the object \<open>getSamples\<close> returned.
\<close>

definition sample_of :: "WavetableOscillator \<Rightarrow> sample_parameter" where
  "sample_of osc = parameter (registered (osc_sample osc))"

definition new_WavetableOscillator :: "sample \<Rightarrow> real \<Rightarrow> WavetableOscillator" where
  "new_WavetableOscillator s sr =
     \<lparr>osc_sample = s, sampleIndex = 0, osc_playing = False, osc_noteOffFlag = False,
      baseSpeed = 1,
      envelope = new_AmplitudeEnvelope (amplitudeEnvelope (parameter (registered s))) sr,
      pitchLFO = new_LFO sr, osc_sampleRate = sr, osc_speed = 1, osc_velocity = 1,
      osc_volume = 1, osc_modulation = 0, modulationDepthRange = 50, osc_pan = 0,
      isHold = False\<rparr>"

definition osc_noteOn :: "int \<Rightarrow> real \<Rightarrow> WavetableOscillator \<Rightarrow> WavetableOscillator" where
  "osc_noteOn key vel osc =
     osc\<lparr>osc_velocity := vel,
         osc_playing := True,
         sampleIndex := sampleStart (sample_of osc),
         baseSpeed :=
           2 powr (((real_of_int key - sample_pitch (sample_of osc)) / 12)
                   * scaleTuning (sample_of osc)),
         pitchLFO := (pitchLFO osc)\<lparr>frequency := 5\<rparr>,
         envelope := env_noteOn (envelope osc)\<rparr>"

definition osc_noteOff :: "WavetableOscillator \<Rightarrow> WavetableOscillator" where
  "osc_noteOff osc = osc\<lparr>envelope := env_noteOff (envelope osc), osc_noteOffFlag := True\<rparr>"

definition osc_forceStop :: "WavetableOscillator \<Rightarrow> WavetableOscillator" where
  "osc_forceStop osc = osc\<lparr>envelope := env_forceStop (envelope osc)\<rparr>"

definition osc_isPlaying :: "WavetableOscillator \<Rightarrow> bool" where
  "osc_isPlaying osc \<longleftrightarrow> osc_playing osc \<and> env_isPlaying (envelope osc)"

definition osc_exclusiveClass :: "WavetableOscillator \<Rightarrow> int option" where
  "osc_exclusiveClass osc = exclusiveClass (sample_of osc)"

text \<open>
  The loop condition of \<open>process\<close>: the sample loops continuously, or loops while the
  note is held and note-off has not been seen.
\<close>

definition loop_active :: "WavetableOscillator \<Rightarrow> bool" where
  "loop_active osc \<longleftrightarrow>
     loop_type (sample_loop (sample_of osc)) = loop_continuous
     \<or> (loop_type (sample_loop (sample_of osc)) = loop_sustain \<and> \<not> osc_noteOffFlag osc)"

text \<open>
  One iteration of the frame loop of \<open>process\<close>, as far as the oscillator's own fields
  go: the interpolated level is added to the output buffers, which no field of the
  oscillator depends on, and is left out. The result is the oscillator after the
  iteration and whether the loop goes on (\<open>False\<close> after \<open>break\<close>).
\<close>

definition loopIndex_of :: "real \<Rightarrow> WavetableOscillator \<Rightarrow> real option" where
  "loopIndex_of modulatedSpeed osc =
     (let advancedIndex = sampleIndex osc + modulatedSpeed
      in if loop_active osc \<and> advancedIndex \<ge> loop_end (sample_loop (sample_of osc))
         then Some (loop_start (sample_loop (sample_of osc))
                    + (advancedIndex - real_of_int \<lfloor>advancedIndex\<rfloor>))
         else None)"

definition process_frame :: "real \<Rightarrow> WavetableOscillator \<Rightarrow> WavetableOscillator \<times> bool" where
  "process_frame modulatedSpeed osc =
     (let advancedIndex = sampleIndex osc + modulatedSpeed;
          osc1 = osc\<lparr>sampleIndex :=
                   (case loopIndex_of modulatedSpeed osc of
                      Some l \<Rightarrow> l
                    | None \<Rightarrow> advancedIndex)\<rparr>
      in if sampleIndex osc1 \<ge> sampleEnd (sample_of osc1)
         then (osc1\<lparr>osc_playing := False\<rparr>, False)
         else (osc1, True))"

text \<open>
  The level that iteration adds to the output buffers: linear interpolation between the
  sample at the read position and the next one. A read of the sample buffer is modelled
  by list indexing, which agrees with the source for reads inside the buffer.
\<close>

definition buffer_at :: "real list \<Rightarrow> real \<Rightarrow> real" where
  "buffer_at b x = b ! nat \<lfloor>x\<rfloor>"

definition frame_level :: "real \<Rightarrow> WavetableOscillator \<Rightarrow> real" where
  "frame_level modulatedSpeed osc =
     (let index = real_of_int \<lfloor>sampleIndex osc\<rfloor>;
          nextIndex = (case loopIndex_of modulatedSpeed osc of
                         Some l \<Rightarrow> real_of_int \<lfloor>l\<rfloor>
                       | None \<Rightarrow> min (index + 1) (sampleEnd (sample_of osc) - 1));
          current = buffer_at (buffer (osc_sample osc)) index;
          next = buffer_at (buffer (osc_sample osc)) nextIndex
      in current + (next - current) * (sampleIndex osc - index))"

text \<open>
  The frame loop from frame \<open>i\<close> with \<open>k\<close> frames to go, on the two output buffers and
  the oscillator.
\<close>

fun process_frames ::
  "real \<Rightarrow> real \<Rightarrow> real \<Rightarrow> nat \<Rightarrow> nat \<Rightarrow> (real list \<times> real list) \<times> WavetableOscillator
     \<Rightarrow> (real list \<times> real list) \<times> WavetableOscillator" where
  "process_frames leftGain rightGain modulatedSpeed i 0 st = st"
| "process_frames leftGain rightGain modulatedSpeed i (Suc k) st =
     (let outL = fst (fst st); outR = snd (fst st); osc = snd st;
          level = frame_level modulatedSpeed osc;
          outs = (outL[i := outL ! i + level * leftGain],
                  outR[i := outR ! i + level * rightGain])
      in case process_frame modulatedSpeed osc of
           (osc1, True) \<Rightarrow>
             process_frames leftGain rightGain modulatedSpeed (Suc i) k (outs, osc1)
         | (osc1, False) \<Rightarrow> (outs, osc1))"

definition modulatedSpeed_of :: "real \<Rightarrow> WavetableOscillator \<Rightarrow> real" where
  "modulatedSpeed_of pitchLFOValue osc =
     (let speed0 = (baseSpeed osc * osc_speed osc * sample_sampleRate (sample_of osc))
                   / osc_sampleRate osc;
          pitchModulation = pitchLFOValue * osc_modulation osc
                            * (modulationDepthRange osc / 1200)
      in speed0 * (1 + pitchModulation))"

text \<open>
  \<open>process\<close> on two output buffers of equal length: nothing when the oscillator is not
  playing; otherwise the envelope and the LFO advance by one buffer and the frame loop
  runs over the buffer.
\<close>

definition osc_process ::
  "real option \<Rightarrow> real list \<times> real list \<Rightarrow> WavetableOscillator
     \<Rightarrow> error + ((real list \<times> real list) \<times> WavetableOscillator)" where
  "osc_process ambient outputs osc =
     (if \<not> osc_playing osc then Inr (outputs, osc)
      else
        (let n = length (fst outputs);
             vol = (osc_velocity osc * osc_volume osc) ^ 2 * sample_volume (sample_of osc);
             panTheta = ((min 1 (max (- 1) (osc_pan osc + sample_pan (sample_of osc))) + 1) * pi) / 4;
             leftPanVolume = cos panTheta;
             rightPanVolume = sin panTheta
         in case getAmplitude ambient n (envelope osc) of
              Inl err \<Rightarrow> Inl err
            | Inr (gain, env1) \<Rightarrow>
                (let leftGain = gain * vol * leftPanVolume;
                     rightGain = gain * vol * rightPanVolume;
                     (pitchLFOValue, lfo1) = getValue n (pitchLFO osc);
                     osc1 = osc\<lparr>envelope := env1, pitchLFO := lfo1\<rparr>
                 in Inr (process_frames leftGain rightGain
                           (modulatedSpeed_of pitchLFOValue osc1) 0 n (outputs, osc1)))))"

section \<open>Events and the scheduler's queues\<close>

text \<open>
  A MIDI payload is a channel event or anything else (a meta event), which has no
  \<open>channel\<close> field. Synth events are the tagged union the scheduler receives: only
  MIDI events and reverb-control events carry a \<open>delayTime\<close>.
\<close>

datatype channel_event =
  NoteOn int int
  | NoteOff int
  | PitchBend int
  | ProgramChange int
  | Controller int int
  | OtherChannelEvent

datatype midi_event = ChannelEvent int channel_event | MetaEvent

fun midi_channel :: "midi_event \<Rightarrow> int option" where
  "midi_channel (ChannelEvent c e) = Some c"
| "midi_channel MetaEvent = None"

datatype synth_event =
  LoadSample "real list" int
  | SampleParameter sample_parameter sample_range
  | ReverbControl real real
  | Midi midi_event real int

record scheduled_event =
  midi :: midi_event
  delayTime :: real
  sequenceNumber :: int
  scheduledFrame :: real

record scheduled_reverb =
  amount :: real
  reverb_delayTime :: real
  reverb_scheduledFrame :: real

text \<open>
  \<open>insertSorted\<close>: a binary search for the first position whose element is not below
  the item, then \<open>splice\<close>. \<open>prop\<close> is the field the array is ordered by.
\<close>

function insert_position :: "('a \<Rightarrow> real) \<Rightarrow> 'a list \<Rightarrow> 'a \<Rightarrow> nat \<Rightarrow> nat \<Rightarrow> nat" where
  "insert_position prop arr item low high =
     (if low < high
      then (let mid = (low + high) div 2
            in if prop (arr ! mid) < prop item
               then insert_position prop arr item (mid + 1) high
               else insert_position prop arr item low mid)
      else low)"
  by pat_completeness auto
termination
  by (relation "measure (\<lambda>(prop, arr, item, low, high). high - low)") auto

declare insert_position.simps [simp del]

definition insertSorted :: "('a \<Rightarrow> real) \<Rightarrow> 'a list \<Rightarrow> 'a \<Rightarrow> 'a list" where
  "insertSorted prop arr item =
     (let low = insert_position prop arr item 0 (length arr)
      in take low arr @ item # drop low arr)"

text \<open>The comparator of the batch sort, and a stable sort by a comparator.\<close>

definition sortEvents :: "scheduled_event \<Rightarrow> scheduled_event \<Rightarrow> int" where
  "sortEvents a b =
     (if scheduledFrame a < scheduledFrame b then - 1
      else if scheduledFrame a > scheduledFrame b then 1
      else if sequenceNumber a < sequenceNumber b then - 1
      else if sequenceNumber a > sequenceNumber b then 1
      else 0)"

fun insert_by :: "('a \<Rightarrow> 'a \<Rightarrow> int) \<Rightarrow> 'a \<Rightarrow> 'a list \<Rightarrow> 'a list" where
  "insert_by cmp x [] = [x]"
| "insert_by cmp x (y # ys) =
     (if cmp x y \<le> 0 then x # y # ys else y # insert_by cmp x ys)"

definition sort_by :: "('a \<Rightarrow> 'a \<Rightarrow> int) \<Rightarrow> 'a list \<Rightarrow> 'a list" where
  "sort_by cmp xs = foldr (insert_by cmp) xs []"

record SynthEventScheduler =
  scheduledEvents :: "scheduled_event list"
  scheduledReverbEvents :: "scheduled_reverb list"
  currentEvents :: "scheduled_event list"
  currentReverbEvents :: "scheduled_reverb list"

definition new_SynthEventScheduler :: SynthEventScheduler where
  "new_SynthEventScheduler =
     \<lparr>scheduledEvents = [], scheduledReverbEvents = [], currentEvents = [],
      currentReverbEvents = []\<rparr>"

definition removeScheduledEvents :: "int \<Rightarrow> SynthEventScheduler \<Rightarrow> SynthEventScheduler" where
  "removeScheduledEvents channel s =
     s\<lparr>scheduledEvents := filter (\<lambda>e. midi_channel (midi e) \<noteq> Some channel) (scheduledEvents s),
       currentEvents := filter (\<lambda>e. midi_channel (midi e) \<noteq> Some channel) (currentEvents s)\<rparr>"

section \<open>Reverb processor\<close>

record ReverbProcessor =
  reverb_sampleRate :: real
  delayLines :: "real list list"
  delayIndices :: "nat list"
  delayTimes :: "int list"
  feedbacks :: "real list"
  gains :: "real list"
  wetLevel :: real
  dryLevel :: real

definition new_ReverbProcessor :: "real \<Rightarrow> ReverbProcessor" where
  "new_ReverbProcessor sr =
     (let delayTimesMs = [19, 29, 41, 53, 67, 79, 97, 113 :: real];
          times = map (\<lambda>ms. \<lfloor>(ms * sr) / 1000\<rfloor>) delayTimesMs
      in \<lparr>reverb_sampleRate = sr,
          delayLines = map (\<lambda>t. replicate (nat t) 0) times,
          delayIndices = replicate (length times) 0,
          delayTimes = times,
          feedbacks = [0.7, 0.65, 0.6, 0.55, 0.5, 0.45, 0.4, 0.35],
          gains = [0.8, 0.75, 0.7, 0.65, 0.6, 0.55, 0.5, 0.45],
          wetLevel = 0.0,
          dryLevel = 1.0\<rparr>)"

definition setReverb :: "real \<Rightarrow> ReverbProcessor \<Rightarrow> ReverbProcessor" where
  "setReverb amt r =
     (let wet = max 0 (min 1 amt)
      in r\<lparr>wetLevel := wet, dryLevel := 1.0 - wet * 0.7\<rparr>)"

text \<open>
  One pass of the inner loop over the delay lines \<open>d, d + 1, \<dots>\<close> for one input
  sample: the accumulated reverb sample and the processor with its delay lines written
  and their indices advanced.
\<close>

definition delay_step :: "real \<Rightarrow> nat \<Rightarrow> real \<times> ReverbProcessor \<Rightarrow> real \<times> ReverbProcessor" where
  "delay_step inputSample d acc =
     (let reverbSample = fst acc;
          r = snd acc;
          delayLine = delayLines r ! d;
          delayIndex = delayIndices r ! d;
          delayTime = delayTimes r ! d;
          delayedSample = delayLine ! delayIndex;
          delayLine1 = delayLine[delayIndex := inputSample + delayedSample * (feedbacks r ! d)]
      in (reverbSample + delayedSample * (gains r ! d),
          r\<lparr>delayLines := (delayLines r)[d := delayLine1],
            delayIndices := (delayIndices r)[d := nat ((int delayIndex + 1) mod delayTime)]\<rparr>))"

definition reverb_sample :: "real \<times> real \<Rightarrow> ReverbProcessor \<Rightarrow> (real \<times> real) \<times> ReverbProcessor" where
  "reverb_sample inp r =
     (let inputSample = (fst inp + snd inp) * 0.5;
          (reverbSample0, r1) = foldl (\<lambda>acc d. delay_step inputSample d acc) (0, r)
                                  [0 ..< length (delayLines r)];
          reverbSample = reverbSample0 * 0.3;
          dryLeft = fst inp * dryLevel r1;
          dryRight = snd inp * dryLevel r1;
          wetLeft = reverbSample * wetLevel r1;
          wetRight = reverbSample * wetLevel r1
      in ((dryLeft + wetLeft, dryRight + wetRight), r1))"

text \<open>
  \<open>process\<close> on input buffers of equal length; the result is what is written to the
  two output buffers (of that length), and the processor afterwards.
\<close>

fun reverb_samples ::
  "(real \<times> real) list \<Rightarrow> ReverbProcessor \<Rightarrow> (real \<times> real) list \<times> ReverbProcessor" where
  "reverb_samples [] r = ([], r)"
| "reverb_samples (inp # inps) r =
     (let (out, r1) = reverb_sample inp r;
          (outs, r2) = reverb_samples inps r1
      in (out # outs, r2))"

definition reverb_process ::
  "real list \<Rightarrow> real list \<Rightarrow> ReverbProcessor \<Rightarrow> (real list \<times> real list) \<times> ReverbProcessor" where
  "reverb_process leftInput rightInput r =
     (let (outs, r1) = reverb_samples (zip leftInput rightInput) r
      in ((map fst outs, map snd outs), r1))"


section \<open>Channel state and the synth core\<close>

record channel_state =
  ch_volume :: real
  ch_bank :: int
  ch_instrument :: int
  ch_pitchBend :: real
  ch_pitchBendSensitivity :: real
  oscillators :: "int \<rightharpoonup> WavetableOscillator list"
  ch_expression :: real
  ch_pan :: real
  ch_modulation :: real
  ch_hold :: bool

definition initialChannelState :: channel_state where
  "initialChannelState =
     \<lparr>ch_volume = 1, ch_bank = 0, ch_instrument = 0, ch_pitchBend = 0,
      ch_pitchBendSensitivity = 2, oscillators = Map.empty, ch_expression = 1,
      ch_pan = 0, ch_modulation = 0, ch_hold = False\<rparr>"

definition RHYTHM_CHANNEL :: int where
  "RHYTHM_CHANNEL = 9"

definition RHYTHM_BANK :: int where
  "RHYTHM_BANK = 128"

text \<open>
  The RPN bookkeeping of the event handler keeps, per channel, the last event of each
  kind; only their \<open>value\<close> fields are read, so the values are stored.
\<close>

record rpn_state =
  rpnMSB :: "int option"
  rpnLSB :: "int option"
  dataMSB :: "int option"
  dataLSB :: "int option"

definition empty_rpn :: rpn_state where
  "empty_rpn = \<lparr>rpnMSB = None, rpnLSB = None, dataMSB = None, dataLSB = None\<rparr>"

text \<open>
  The core together with the event handler and the scheduler that its constructor
  creates and that call back into it.
\<close>

record SynthProcessorCore =
  core_sampleRate :: real
  sampleTable :: SampleTable
  channels :: "int \<rightharpoonup> channel_state"
  eventScheduler :: SynthEventScheduler
  reverbProcessor :: ReverbProcessor
  rpnEvents :: "int \<rightharpoonup> rpn_state"
  bankSelectMSB :: "int \<rightharpoonup> int"

definition new_SynthProcessorCore :: "real \<Rightarrow> SynthProcessorCore" where
  "new_SynthProcessorCore sr =
     \<lparr>core_sampleRate = sr, sampleTable = empty_SampleTable, channels = Map.empty,
      eventScheduler = new_SynthEventScheduler, reverbProcessor = new_ReverbProcessor sr,
      rpnEvents = Map.empty, bankSelectMSB = Map.empty\<rparr>"

text \<open>\<open>getChannelState\<close> creates the state of a channel on first use.\<close>

definition getChannelState :: "int \<Rightarrow> SynthProcessorCore \<Rightarrow> channel_state \<times> SynthProcessorCore" where
  "getChannelState channel c =
     (case channels c channel of
        Some st \<Rightarrow> (st, c)
      | None \<Rightarrow> (initialChannelState, c\<lparr>channels := (channels c)(channel \<mapsto> initialChannelState)\<rparr>))"

text \<open>Fetch the state of a channel, mutate it, and leave it in the table.\<close>

definition update_channel ::
  "int \<Rightarrow> (channel_state \<Rightarrow> channel_state) \<Rightarrow> SynthProcessorCore \<Rightarrow> SynthProcessorCore" where
  "update_channel channel f c =
     (let (st, c1) = getChannelState channel c
      in c1\<lparr>channels := (channels c1)(channel \<mapsto> f st)\<rparr>)"

text \<open>Apply a function to every oscillator of every key of a channel.\<close>

definition map_oscillators ::
  "(WavetableOscillator \<Rightarrow> WavetableOscillator) \<Rightarrow> channel_state \<Rightarrow> channel_state" where
  "map_oscillators f st = st\<lparr>oscillators := (\<lambda>key. map_option (map f) (oscillators st key))\<rparr>"

definition core_getSamples :: "int \<Rightarrow> int \<Rightarrow> int \<Rightarrow> SynthProcessorCore \<Rightarrow> sample list" where
  "core_getSamples channel key vel c =
     (let st = fst (getChannelState channel c);
          bank = (if channel = RHYTHM_CHANNEL then RHYTHM_BANK else ch_bank st)
      in getSamples (sampleTable c) bank (ch_instrument st) key vel)"

text \<open>
  The exclusive-class sweep of \<open>noteOn\<close> for one sample: every oscillator of the
  channel with the sample's class is force-stopped.
\<close>

definition exclusive_sweep :: "int option \<Rightarrow> channel_state \<Rightarrow> channel_state" where
  "exclusive_sweep cls st =
     (case cls of
        None \<Rightarrow> st
      | Some x \<Rightarrow>
          map_oscillators
            (\<lambda>osc. if osc_exclusiveClass osc = Some x then osc_forceStop osc else osc) st)"

text \<open>The body of the loop of \<open>noteOn\<close> for one sample, and the loop.\<close>

definition noteOn_sample :: "real \<Rightarrow> int \<Rightarrow> int \<Rightarrow> sample \<Rightarrow> channel_state \<Rightarrow> channel_state" where
  "noteOn_sample sr key vel s st =
     (let oscillator = osc_noteOn key (real_of_int vel / 127) (new_WavetableOscillator s sr);
          st1 = (if oscillators st key = None
                 then st\<lparr>oscillators := (oscillators st)(key \<mapsto> [])\<rparr> else st);
          st2 = exclusive_sweep (exclusiveClass (parameter (registered s))) st1
      in st2\<lparr>oscillators :=
              (oscillators st2)(key \<mapsto>
                 (case oscillators st2 key of None \<Rightarrow> [] | Some l \<Rightarrow> l) @ [oscillator])\<rparr>)"

fun noteOn_samples :: "real \<Rightarrow> int \<Rightarrow> int \<Rightarrow> sample list \<Rightarrow> channel_state \<Rightarrow> channel_state" where
  "noteOn_samples sr key vel [] st = st"
| "noteOn_samples sr key vel (s # ss) st =
     noteOn_samples sr key vel ss (noteOn_sample sr key vel s st)"

definition noteOn :: "int \<Rightarrow> int \<Rightarrow> int \<Rightarrow> SynthProcessorCore \<Rightarrow> SynthProcessorCore" where
  "noteOn channel key vel c =
     (let c1 = snd (getChannelState channel c);
          found = core_getSamples channel key vel c1
      in if length found = 0 then c1
         else update_channel channel (noteOn_samples (core_sampleRate c1) key vel found) c1)"

definition noteOff :: "int \<Rightarrow> int \<Rightarrow> SynthProcessorCore \<Rightarrow> SynthProcessorCore" where
  "noteOff channel key c =
     update_channel channel
       (\<lambda>st. case oscillators st key of
               None \<Rightarrow> st
             | Some l \<Rightarrow>
                 st\<lparr>oscillators := (oscillators st)(key \<mapsto>
                      map (\<lambda>osc. if \<not> osc_noteOffFlag osc
                                  then (if ch_hold st then osc\<lparr>isHold := True\<rparr>
                                        else osc_noteOff osc)
                                  else osc) l)\<rparr>) c"

definition pitchBend :: "int \<Rightarrow> int \<Rightarrow> SynthProcessorCore \<Rightarrow> SynthProcessorCore" where
  "pitchBend channel v c =
     update_channel channel
       (\<lambda>st. st\<lparr>ch_pitchBend := (real_of_int v / 8192 - 1) * ch_pitchBendSensitivity st\<rparr>) c"

definition programChange :: "int \<Rightarrow> int \<Rightarrow> SynthProcessorCore \<Rightarrow> SynthProcessorCore" where
  "programChange channel v c = update_channel channel (\<lambda>st. st\<lparr>ch_instrument := v\<rparr>) c"

definition setPitchBendSensitivity :: "int \<Rightarrow> int \<Rightarrow> SynthProcessorCore \<Rightarrow> SynthProcessorCore" where
  "setPitchBendSensitivity channel v c =
     update_channel channel (\<lambda>st. st\<lparr>ch_pitchBendSensitivity := real_of_int v\<rparr>) c"

definition setMainVolume :: "int \<Rightarrow> int \<Rightarrow> SynthProcessorCore \<Rightarrow> SynthProcessorCore" where
  "setMainVolume channel v c =
     update_channel channel (\<lambda>st. st\<lparr>ch_volume := real_of_int v / 127\<rparr>) c"

definition expression :: "int \<Rightarrow> int \<Rightarrow> SynthProcessorCore \<Rightarrow> SynthProcessorCore" where
  "expression channel v c =
     update_channel channel (\<lambda>st. st\<lparr>ch_expression := real_of_int v / 127\<rparr>) c"

definition allSoundsOff :: "int \<Rightarrow> SynthProcessorCore \<Rightarrow> SynthProcessorCore" where
  "allSoundsOff channel c =
     update_channel channel (map_oscillators osc_forceStop)
       (c\<lparr>eventScheduler := removeScheduledEvents channel (eventScheduler c)\<rparr>)"

definition allNotesOff :: "int \<Rightarrow> SynthProcessorCore \<Rightarrow> SynthProcessorCore" where
  "allNotesOff channel c = update_channel channel (map_oscillators osc_noteOff) c"

definition hold :: "int \<Rightarrow> int \<Rightarrow> SynthProcessorCore \<Rightarrow> SynthProcessorCore" where
  "hold channel v c =
     update_channel channel
       (\<lambda>st. let st1 = st\<lparr>ch_hold := (v \<ge> 64)\<rparr>
             in if v \<ge> 64 then st1
                else map_oscillators (\<lambda>osc. if isHold osc then osc_noteOff osc else osc) st1) c"

definition setPan :: "int \<Rightarrow> int \<Rightarrow> SynthProcessorCore \<Rightarrow> SynthProcessorCore" where
  "setPan channel v c =
     update_channel channel (\<lambda>st. st\<lparr>ch_pan := (real_of_int v / 127 - 0.5) * 2\<rparr>) c"

definition bankSelect :: "int \<Rightarrow> int \<Rightarrow> SynthProcessorCore \<Rightarrow> SynthProcessorCore" where
  "bankSelect channel v c = update_channel channel (\<lambda>st. st\<lparr>ch_bank := v\<rparr>) c"

definition modulation :: "int \<Rightarrow> int \<Rightarrow> SynthProcessorCore \<Rightarrow> SynthProcessorCore" where
  "modulation channel v c =
     update_channel channel (\<lambda>st. st\<lparr>ch_modulation := real_of_int v / 127\<rparr>) c"

definition resetChannel :: "int \<Rightarrow> SynthProcessorCore \<Rightarrow> SynthProcessorCore" where
  "resetChannel channel c = c\<lparr>channels := (channels c)(channel := None)\<rparr>"

definition core_setReverb :: "real \<Rightarrow> SynthProcessorCore \<Rightarrow> SynthProcessorCore" where
  "core_setReverb amt c = c\<lparr>reverbProcessor := setReverb amt (reverbProcessor c)\<rparr>"

section \<open>Event handler\<close>

definition handleImmediateEvent :: "synth_event \<Rightarrow> SynthProcessorCore \<Rightarrow> SynthProcessorCore" where
  "handleImmediateEvent e c =
     (case e of
        SampleParameter p rg \<Rightarrow> c\<lparr>sampleTable := addSampleParameter p rg (sampleTable c)\<rparr>
      | LoadSample data sid \<Rightarrow> c\<lparr>sampleTable := addSample data sid (sampleTable c)\<rparr>
      | ReverbControl amt d \<Rightarrow> core_setReverb amt c
      | Midi m d n \<Rightarrow> c)"

definition rpn_of :: "SynthProcessorCore \<Rightarrow> int \<Rightarrow> rpn_state" where
  "rpn_of c channel = (case rpnEvents c channel of None \<Rightarrow> empty_rpn | Some r \<Rightarrow> r)"

text \<open>The switch over \<open>controllerType\<close>; the constants are \<open>MIDIControlEvents\<close>.\<close>

definition handleController :: "int \<Rightarrow> int \<Rightarrow> int \<Rightarrow> SynthProcessorCore \<Rightarrow> SynthProcessorCore" where
  "handleController channel controllerType v c =
     (if controllerType = 0x63 \<or> controllerType = 0x62
      then c\<lparr>rpnEvents := (rpnEvents c)(channel := None)\<rparr>
      else if controllerType = 0x65
      then (if v = 127 then c\<lparr>rpnEvents := (rpnEvents c)(channel := None)\<rparr>
            else c\<lparr>rpnEvents := (rpnEvents c)(channel \<mapsto> (rpn_of c channel)\<lparr>rpnMSB := Some v\<rparr>)\<rparr>)
      else if controllerType = 0x64
      then (if v = 127 then c\<lparr>rpnEvents := (rpnEvents c)(channel := None)\<rparr>
            else c\<lparr>rpnEvents := (rpnEvents c)(channel \<mapsto> (rpn_of c channel)\<lparr>rpnLSB := Some v\<rparr>)\<rparr>)
      else if controllerType = 0x06
      then (let rpn = (rpn_of c channel)\<lparr>dataMSB := Some v\<rparr>;
                c1 = c\<lparr>rpnEvents := (rpnEvents c)(channel \<mapsto> rpn)\<rparr>
            in if rpnLSB rpn = Some 0 then setPitchBendSensitivity channel v c1 else c1)
      else if controllerType = 0x26
      then c\<lparr>rpnEvents := (rpnEvents c)(channel \<mapsto> (rpn_of c channel)\<lparr>dataLSB := Some v\<rparr>)\<rparr>
      else if controllerType = 0x07 then setMainVolume channel v c
      else if controllerType = 0x0b then expression channel v c
      else if controllerType = 0x78 then allSoundsOff channel c
      else if controllerType = 0x7b then allNotesOff channel c
      else if controllerType = 0x40 then hold channel v c
      else if controllerType = 0x0a then setPan channel v c
      else if controllerType = 0x01 then modulation channel v c
      else if controllerType = 0x00 then c\<lparr>bankSelectMSB := (bankSelectMSB c)(channel \<mapsto> v)\<rparr>
      else if controllerType = 0x20
      then (case bankSelectMSB c channel of
              None \<Rightarrow> c
            | Some msb \<Rightarrow>
                bankSelect channel (sint (push_bit 7 (word_of_int msb :: 32 word)) + v) c)
      else if controllerType = 0x79 then resetChannel channel c
      else c)"

fun handleDelayableEvent :: "midi_event \<Rightarrow> SynthProcessorCore \<Rightarrow> SynthProcessorCore" where
  "handleDelayableEvent (ChannelEvent channel (NoteOn key vel)) c = noteOn channel key vel c"
| "handleDelayableEvent (ChannelEvent channel (NoteOff key)) c = noteOff channel key c"
| "handleDelayableEvent (ChannelEvent channel (PitchBend v)) c = pitchBend channel v c"
| "handleDelayableEvent (ChannelEvent channel (ProgramChange v)) c = programChange channel v c"
| "handleDelayableEvent (ChannelEvent channel (Controller t v)) c = handleController channel t v c"
| "handleDelayableEvent (ChannelEvent channel OtherChannelEvent) c = c"
| "handleDelayableEvent MetaEvent c = c"


section \<open>Event scheduler\<close>

text \<open>
  The scheduler's callbacks are the two handlers above, so its operations act on the
  core. \<open>getCurrentFrame\<close> is the caller's frame counter; its value at the time of the
  call is the first argument.
\<close>

definition addEvent :: "real \<Rightarrow> synth_event \<Rightarrow> SynthProcessorCore \<Rightarrow> SynthProcessorCore" where
  "addEvent currentFrame e c =
     (case e of
        ReverbControl amt d \<Rightarrow>
          (if d > 0
           then c\<lparr>eventScheduler := (eventScheduler c)
                  \<lparr>scheduledReverbEvents :=
                     insertSorted reverb_scheduledFrame (scheduledReverbEvents (eventScheduler c))
                       \<lparr>amount = amt, reverb_delayTime = d,
                        reverb_scheduledFrame = currentFrame + d\<rparr>\<rparr>\<rparr>
           else handleImmediateEvent e c)
      | Midi m d n \<Rightarrow>
          c\<lparr>eventScheduler := (eventScheduler c)
             \<lparr>scheduledEvents :=
                insertSorted scheduledFrame (scheduledEvents (eventScheduler c))
                  \<lparr>midi = m, delayTime = d, sequenceNumber = n,
                   scheduledFrame = currentFrame + d\<rparr>\<rparr>\<rparr>
      | _ \<Rightarrow> handleImmediateEvent e c)"

text \<open>The first loop of \<open>processScheduledEvents\<close>: due reverb events.\<close>

function process_reverb_events :: "real \<Rightarrow> SynthProcessorCore \<Rightarrow> SynthProcessorCore" where
  "process_reverb_events currentFrame c =
     (case scheduledReverbEvents (eventScheduler c) of
        [] \<Rightarrow> c
      | e # es \<Rightarrow>
          (if reverb_scheduledFrame e > currentFrame then c
           else process_reverb_events currentFrame
                  (handleImmediateEvent (ReverbControl (amount e) (reverb_delayTime e))
                     (c\<lparr>eventScheduler := (eventScheduler c)\<lparr>scheduledReverbEvents := es\<rparr>\<rparr>))))"
  by pat_completeness auto
termination
  by (relation "measure (\<lambda>(f, c). length (scheduledReverbEvents (eventScheduler c)))")
     (auto simp: handleImmediateEvent_def core_setReverb_def)

declare process_reverb_events.simps [simp del]

text \<open>The second loop: due events move from the queue to the end of the batch.\<close>

fun pop_due ::
  "real \<Rightarrow> scheduled_event list \<Rightarrow> scheduled_event list
     \<Rightarrow> scheduled_event list \<times> scheduled_event list" where
  "pop_due currentFrame [] batch = ([], batch)"
| "pop_due currentFrame (e # es) batch =
     (if scheduledFrame e > currentFrame then (e # es, batch)
      else pop_due currentFrame es (batch @ [e]))"

text \<open>
  The third loop: the batch is dispatched from its head. The handler runs on the core,
  and may change the batch. The second component records the events dispatched, in
  order.
\<close>

function dispatch_events ::
  "SynthProcessorCore \<times> scheduled_event list \<Rightarrow> SynthProcessorCore \<times> scheduled_event list" where
  "dispatch_events (c, dispatched) =
     (case currentEvents (eventScheduler c) of
        [] \<Rightarrow> (c, dispatched)
      | e # es \<Rightarrow>
          dispatch_events
            (handleDelayableEvent (midi e)
               (c\<lparr>eventScheduler := (eventScheduler c)\<lparr>currentEvents := es\<rparr>\<rparr>),
             dispatched @ [e]))"
  by pat_completeness auto
termination
proof (relation "measure (\<lambda>(c, d). length (currentEvents (eventScheduler c)))", goal_cases)
  case 1
  show ?case by simp
next
  case (2 c dispatched e es)
  have upd: "eventScheduler (update_channel ch f c') = eventScheduler c'" for ch f c'
    by (simp add: update_channel_def getChannelState_def split: option.splits prod.splits)
  have "length (currentEvents (eventScheduler (handleDelayableEvent m c')))
          \<le> length (currentEvents (eventScheduler c'))" for m c'
  proof (cases m)
    case (ChannelEvent ch ev)
    then show ?thesis
      by (cases ev)
         (simp_all add: upd noteOn_def noteOff_def pitchBend_def programChange_def
            handleController_def setPitchBendSensitivity_def setMainVolume_def expression_def
            allSoundsOff_def allNotesOff_def hold_def setPan_def modulation_def bankSelect_def
            resetChannel_def getChannelState_def removeScheduledEvents_def Let_def
            split: option.splits)
  next
    case MetaEvent
    then show ?thesis by simp
  qed
  from this [of "midi e" "c\<lparr>eventScheduler := (eventScheduler c)\<lparr>currentEvents := es\<rparr>\<rparr>"] 2
  show ?case by simp
qed

declare dispatch_events.simps [simp del]

definition processScheduledEvents ::
  "real \<Rightarrow> SynthProcessorCore \<Rightarrow> SynthProcessorCore \<times> scheduled_event list" where
  "processScheduledEvents currentFrame c =
     (let c1 = process_reverb_events currentFrame c;
          s1 = eventScheduler c1
      in if length (scheduledEvents s1) = 0 then (c1, [])
         else
           (let (rest, batch) = pop_due currentFrame (scheduledEvents s1) (currentEvents s1);
                c2 = c1\<lparr>eventScheduler :=
                        s1\<lparr>scheduledEvents := rest, currentEvents := sort_by sortEvents batch\<rparr>\<rparr>
            in dispatch_events (c2, [])))"



section \<open>Rendering one buffer\<close>

text \<open>
  The callback that \<open>process\<close> passes to \<open>filter\<close> on the oscillators of one key: each
  oscillator takes the channel's settings, renders into the dry buffers, and stays in
  the list if it is still playing.
\<close>

fun process_voices ::
  "real option \<Rightarrow> channel_state \<Rightarrow> WavetableOscillator list \<Rightarrow> real list \<times> real list
     \<Rightarrow> error + (WavetableOscillator list \<times> (real list \<times> real list))" where
  "process_voices ambient st [] dry = Inr ([], dry)"
| "process_voices ambient st (osc # rest) dry =
     (let osc1 = osc\<lparr>osc_speed := 2 powr (ch_pitchBend st / 12),
                    osc_volume := ch_volume st * ch_expression st,
                    osc_pan := ch_pan st,
                    osc_modulation := ch_modulation st\<rparr>
      in case osc_process ambient dry osc1 of
           Inl err \<Rightarrow> Inl err
         | Inr (dry1, osc2) \<Rightarrow>
             (case process_voices ambient st rest dry1 of
                Inl err \<Rightarrow> Inl err
              | Inr (kept, dry2) \<Rightarrow>
                  Inr ((if osc_isPlaying osc2 then osc2 # kept else kept), dry2)))"

text \<open>
  \<open>for (key in state.oscillators)\<close> and \<open>for (channel in this.channels)\<close> visit integer
  keys in ascending order.
\<close>

fun process_keys ::
  "real option \<Rightarrow> int list \<Rightarrow> channel_state \<times> (real list \<times> real list)
     \<Rightarrow> error + (channel_state \<times> (real list \<times> real list))" where
  "process_keys ambient [] acc = Inr acc"
| "process_keys ambient (k # ks) acc =
     (let st = fst acc; dry = snd acc
      in case oscillators st k of
           None \<Rightarrow> process_keys ambient ks acc
         | Some l \<Rightarrow>
             (case process_voices ambient st l dry of
                Inl err \<Rightarrow> Inl err
              | Inr (kept, dry1) \<Rightarrow>
                  process_keys ambient ks
                    (st\<lparr>oscillators := (oscillators st)(k \<mapsto> kept)\<rparr>, dry1)))"

fun process_channels ::
  "real option \<Rightarrow> int list \<Rightarrow> SynthProcessorCore \<times> (real list \<times> real list)
     \<Rightarrow> error + (SynthProcessorCore \<times> (real list \<times> real list))" where
  "process_channels ambient [] acc = Inr acc"
| "process_channels ambient (ch # chs) acc =
     (let c = fst acc; dry = snd acc
      in case channels c ch of
           None \<Rightarrow> process_channels ambient chs acc
         | Some st \<Rightarrow>
             (case process_keys ambient (sorted_list_of_set (dom (oscillators st))) (st, dry) of
                Inl err \<Rightarrow> Inl err
              | Inr (st1, dry1) \<Rightarrow>
                  process_channels ambient chs
                    (c\<lparr>channels := (channels c)(ch \<mapsto> st1)\<rparr>, dry1)))"

text \<open>
  \<open>SynthProcessorCore.process\<close> on output buffers of \<open>n\<close> frames at the given frame.
\<close>

definition core_process ::
  "real option \<Rightarrow> real \<Rightarrow> nat \<Rightarrow> SynthProcessorCore
     \<Rightarrow> error + (SynthProcessorCore \<times> (real list \<times> real list))" where
  "core_process ambient currentFrame n c =
     (let c1 = fst (processScheduledEvents currentFrame c);
          dryLeft = replicate n 0;
          dryRight = replicate n 0
      in case process_channels ambient (sorted_list_of_set (dom (channels c1)))
                (c1, (dryLeft, dryRight)) of
           Inl err \<Rightarrow> Inl err
         | Inr (c2, dry) \<Rightarrow>
             (let (outs, rv) = reverb_process (fst dry) (snd dry) (reverbProcessor c2)
              in Inr (c2\<lparr>reverbProcessor := rv\<rparr>, outs)))"

section \<open>Offline render driver\<close>

text \<open>
  \<open>renderAudio\<close>. The options are the sample rate, the buffer size and the cancel
  predicate, each optional; the predicate is a closure over state that changes between
  polls, so it takes the index of the iteration that polls it. The hooks
  \<open>waitForEventLoop\<close> and \<open>onProgress\<close> do not touch the renderer and are left out.
\<close>

record render_options =
  opt_sampleRate :: "real option"
  opt_bufferSize :: "nat option"
  opt_cancel :: "(nat \<Rightarrow> bool) option"

record audio_data =
  data_length :: nat
  leftData :: "real list"
  rightData :: "real list"
  data_sampleRate :: real

text \<open>The renderer's own \<open>max\<close>: \<open>undefined\<close> on the empty array.\<close>

fun array_max :: "real list \<Rightarrow> real option" where
  "array_max [] = None"
| "array_max (x # xs) = Some (foldl (\<lambda>m a. if a > m then a else m) x xs)"

definition getSongLength :: "synth_event list \<Rightarrow> real" where
  "getSongLength events =
     (case array_max (map (\<lambda>e. case e of Midi m d n \<Rightarrow> d | _ \<Rightarrow> 0) events) of
        None \<Rightarrow> 0
      | Some l \<Rightarrow> l)"

definition silentTimeoutSec :: real where
  "silentTimeoutSec = 5"

definition isArrayZero :: "real list \<Rightarrow> bool" where
  "isArrayZero arr \<longleftrightarrow> list_all (\<lambda>x. x = 0) arr"

text \<open>\<open>{...e, sequenceNumber}\<close>, and the two \<open>forEach\<close> loops that submit the events.\<close>

fun with_sequenceNumber :: "int \<Rightarrow> synth_event \<Rightarrow> synth_event" where
  "with_sequenceNumber n (Midi m d k) = Midi m d n"
| "with_sequenceNumber n e = e"

fun add_events ::
  "real \<Rightarrow> int \<Rightarrow> synth_event list \<Rightarrow> SynthProcessorCore \<Rightarrow> int \<times> SynthProcessorCore" where
  "add_events currentFrame n [] c = (n, c)"
| "add_events currentFrame n (e # es) c =
     add_events currentFrame (n + 1) es (addEvent currentFrame (with_sequenceNumber n e) c)"

text \<open>\<open>target.set(source, offset)\<close> on typed arrays.\<close>

definition array_set :: "real list \<Rightarrow> real list \<Rightarrow> nat \<Rightarrow> real list" where
  "array_set target source offset =
     take offset target @ source @ drop (offset + length source) target"

text \<open>
  The render loop from iteration \<open>i\<close>. The result is the number of iterations that
  have advanced the frame counter, and the two data arrays.
\<close>

function render_loop ::
  "real option \<Rightarrow> (nat \<Rightarrow> bool) option \<Rightarrow> nat \<Rightarrow> int \<Rightarrow> int \<Rightarrow> nat
     \<Rightarrow> SynthProcessorCore \<times> real list \<times> real list
     \<Rightarrow> error + (nat \<times> real list \<times> real list)" where
  "render_loop ambient cancel bufSize iterCount allIterCount i st =
     (if int i < allIterCount
      then
        (case core_process ambient (real (i * bufSize)) bufSize (fst st) of
           Inl err \<Rightarrow> Inl err
         | Inr (synth1, buf) \<Rightarrow>
             (let offset = i * bufSize;
                  leftData1 = array_set (fst (snd st)) (fst buf) offset;
                  rightData1 = array_set (snd (snd st)) (snd buf) offset
              in if int i > iterCount \<and> isArrayZero (fst buf) \<and> isArrayZero (snd buf)
                 then Inr (Suc i, leftData1, rightData1)
                 else if i mod 1000 = 0 \<and> (case cancel of None \<Rightarrow> False | Some p \<Rightarrow> p i)
                 then Inl RenderCancelled
                 else render_loop ambient cancel bufSize iterCount allIterCount (Suc i)
                        (synth1, leftData1, rightData1)))
      else Inr (i, fst (snd st), snd (snd st)))"
  by pat_completeness auto
termination
  by (relation "measure (\<lambda>(a, cn, b, ic, aic, i, st). nat (aic - int i))") auto

declare render_loop.simps [simp del]

definition renderAudio ::
  "real option \<Rightarrow> synth_event list \<Rightarrow> synth_event list \<Rightarrow> render_options
     \<Rightarrow> error + audio_data" where
  "renderAudio ambient sampleEvents events options =
     (let sampleRate = (case opt_sampleRate options of None \<Rightarrow> 44100 | Some r \<Rightarrow> r);
          bufSize = (case opt_bufferSize options of None \<Rightarrow> 500 | Some b \<Rightarrow> b);
          synth0 = new_SynthProcessorCore sampleRate;
          (n1, synth1) = add_events 0 0 sampleEvents synth0;
          (n2, synth2) = add_events 0 n1 events synth1;
          songLengthFrame = getSongLength events;
          iterCount = \<lceil>songLengthFrame / real bufSize\<rceil>;
          additionalIterCount = \<lceil>(silentTimeoutSec * sampleRate) / real bufSize\<rceil>;
          allIterCount = iterCount + additionalIterCount;
          audioBufferSize = allIterCount * int bufSize
      in if audioBufferSize < 0 then Inl RangeError
         else
           (case render_loop ambient (opt_cancel options) bufSize iterCount allIterCount 0
                   (synth2, replicate (nat audioBufferSize) 0, replicate (nat audioBufferSize) 0) of
              Inl err \<Rightarrow> Inl err
            | Inr (count, leftData1, rightData1) \<Rightarrow>
                (let currentFrame = count * bufSize
                 in Inr \<lparr>data_length = length (take currentFrame leftData1),
                         leftData = take currentFrame leftData1,
                         rightData = take currentFrame rightData1,
                         data_sampleRate = sampleRate\<rparr>)))"

chapter \<open>Auxiliary notions for the properties\<close>

text \<open>
  The tables that the two mutators of \<open>SampleTable\<close> can build from the empty table.
\<close>

inductive reachable_table :: "SampleTable \<Rightarrow> bool" where
  reachable_empty: "reachable_table empty_SampleTable"
| reachable_addSample: "reachable_table t \<Longrightarrow> reachable_table (addSample d sid t)"
| reachable_addSampleParameter:
    "reachable_table t \<Longrightarrow> reachable_table (addSampleParameter p rg t)"

text \<open>
  In a table built that way an instrument entry exists only with a registered key.
\<close>

definition wf_parameters :: "bank_table \<Rightarrow> bool" where
  "wf_parameters sp \<longleftrightarrow>
     (\<forall>b i ip. instrument_lookup sp b i = Some ip \<longrightarrow> (\<exists>k l. ip k = Some l \<and> l \<noteq> []))"

definition entries_at :: "bank_table \<Rightarrow> int \<Rightarrow> int \<Rightarrow> int \<Rightarrow> registered_parameter list" where
  "entries_at sp bank instrument key =
     (case instrument_lookup sp bank instrument of
        None \<Rightarrow> []
      | Some ip \<Rightarrow> (case ip key of None \<Rightarrow> [] | Some l \<Rightarrow> l))"

text \<open>The bank whose entries \<open>getSamples\<close> reads: bank 0 when (bank, instrument) has none.\<close>

definition resolved_bank :: "SampleTable \<Rightarrow> int \<Rightarrow> int \<Rightarrow> int" where
  "resolved_bank t bank instrument =
     (if instrument_lookup (sampleParameters t) bank instrument = None then 0 else bank)"

text \<open>Concrete data for the examples.\<close>

definition example_envelope :: envelope_parameter where
  "example_envelope =
     \<lparr>attackTime = 0.01, holdTime = 0, decayTime = 0.5, sustainLevel = 0.5, releaseTime = 0.2\<rparr>"

definition example_parameter :: "int \<Rightarrow> int option \<Rightarrow> sample_parameter" where
  "example_parameter sid cls =
     \<lparr>sampleID = sid, sample_pitch = 60, scaleTuning = 1, sampleStart = 0, sampleEnd = 4,
      sample_loop = \<lparr>loop_type = no_loop, loop_start = 0, loop_end = 0\<rparr>,
      sample_sampleRate = 44100, sample_volume = 1, sample_pan = 0, exclusiveClass = cls,
      amplitudeEnvelope = example_envelope\<rparr>"

definition example_range :: "int \<Rightarrow> int \<Rightarrow> int \<times> int \<Rightarrow> sample_range" where
  "example_range b i ks =
     \<lparr>range_bank = b, range_instrument = i, keyRange = ks, range_velRange = (0, 127)\<rparr>"

text \<open>A table with one parameter registered for keys 60 and 61 and no sample loaded.\<close>

definition example_table :: SampleTable where
  "example_table =
     addSampleParameter (example_parameter 1 None) (example_range 0 0 (60, 61)) empty_SampleTable"

text \<open>The example table with a further parameter under bank 5, instrument 1.\<close>

definition example_table_banks :: SampleTable where
  "example_table_banks =
     addSampleParameter (example_parameter 1 None) (example_range 5 1 (60, 60)) example_table"




text \<open>The scheduled form of a MIDI event submitted at a frame.\<close>

definition scheduled_at :: "real \<Rightarrow> midi_event \<Rightarrow> real \<Rightarrow> int \<Rightarrow> scheduled_event" where
  "scheduled_at currentFrame m d n =
     \<lparr>midi = m, delayTime = d, sequenceNumber = n, scheduledFrame = currentFrame + d\<rparr>"



text \<open>
  A scheduler with pending events of channels 0 and 1 and a meta event, a popped event of
  each channel, and a pending reverb event.
\<close>

definition example_scheduler :: SynthEventScheduler where
  "example_scheduler =
     \<lparr>scheduledEvents =
        [scheduled_at 0 (ChannelEvent 0 (NoteOn 60 100)) 10 0,
         scheduled_at 0 (ChannelEvent 1 (NoteOn 62 100)) 10 1,
         scheduled_at 0 MetaEvent 15 2,
         scheduled_at 0 (ChannelEvent 0 (NoteOff 60)) 20 3],
      scheduledReverbEvents = [\<lparr>amount = 0.5, reverb_delayTime = 5, reverb_scheduledFrame = 5\<rparr>],
      currentEvents =
        [scheduled_at 0 (ChannelEvent 1 (NoteOff 62)) 1 4,
         scheduled_at 0 (ChannelEvent 0 (NoteOff 64)) 1 5],
      currentReverbEvents = []\<rparr>"

text \<open>
  Notions for the voice-stealing properties: the oscillators of a key of a channel
  (none when the channel or the key has no entry), the oscillator that \<open>noteOn\<close> creates
  for a sample, and what the sweeps for a list of samples do to one oscillator.
\<close>

definition channel_voices :: "channel_state \<Rightarrow> int \<Rightarrow> WavetableOscillator list" where
  "channel_voices st k = (case oscillators st k of None \<Rightarrow> [] | Some l \<Rightarrow> l)"

definition voices_at :: "SynthProcessorCore \<Rightarrow> int \<Rightarrow> int \<Rightarrow> WavetableOscillator list" where
  "voices_at c ch k = (case channels c ch of None \<Rightarrow> [] | Some st \<Rightarrow> channel_voices st k)"

definition fresh_voice :: "real \<Rightarrow> int \<Rightarrow> int \<Rightarrow> sample \<Rightarrow> WavetableOscillator" where
  "fresh_voice sr key vel s =
     osc_noteOn key (real_of_int vel / 127) (new_WavetableOscillator s sr)"

definition sample_class :: "sample \<Rightarrow> int option" where
  "sample_class s = exclusiveClass (parameter (registered s))"

definition steal :: "sample list \<Rightarrow> WavetableOscillator \<Rightarrow> WavetableOscillator" where
  "steal found osc =
     (if osc_exclusiveClass osc \<noteq> None \<and> osc_exclusiveClass osc \<in> sample_class ` set found
      then osc_forceStop osc else osc)"

text \<open>
  The oscillators that one \<open>noteOn\<close> appends for its samples, as they are when it
  returns: each has been through the sweeps of the samples after its own.
\<close>

fun new_voices :: "real \<Rightarrow> int \<Rightarrow> int \<Rightarrow> sample list \<Rightarrow> WavetableOscillator list" where
  "new_voices sr key vel [] = []"
| "new_voices sr key vel (s # ss) = steal ss (fresh_voice sr key vel s) # new_voices sr key vel ss"

text \<open>
  A core whose table holds one loaded sample, registered for keys 42 and 46 with
  exclusive class 1, for key 60 without a class, and twice for key 50 with class 7; and
  the same core after notes 46 and 60 have been started on channel 0.
\<close>

definition example_kit :: SampleTable where
  "example_kit =
     addSample [0, 1, 0, - 1] 1
       (addSampleParameter (example_parameter 1 (Some 7)) (example_range 0 0 (50, 50))
         (addSampleParameter (example_parameter 1 (Some 7)) (example_range 0 0 (50, 50))
           (addSampleParameter (example_parameter 1 None) (example_range 0 0 (60, 60))
             (addSampleParameter (example_parameter 1 (Some 1)) (example_range 0 0 (46, 46))
               (addSampleParameter (example_parameter 1 (Some 1)) (example_range 0 0 (42, 42))
                  empty_SampleTable)))))"

definition example_synth :: SynthProcessorCore where
  "example_synth = (new_SynthProcessorCore 44100)\<lparr>sampleTable := example_kit\<rparr>"

definition example_playing :: SynthProcessorCore where
  "example_playing = noteOn 0 60 100 (noteOn 0 46 100 example_synth)"

definition example_sample :: "int option \<Rightarrow> sample" where
  "example_sample cls =
     \<lparr>registered = \<lparr>parameter = example_parameter 1 cls, velRange = (0, 127)\<rparr>,
      buffer = [0, 1, 0, - 1]\<rparr>"

text \<open>An envelope at full amplitude in the sustain phase, at a sample rate of 1000.\<close>

definition example_held_envelope :: AmplitudeEnvelope where
  "example_held_envelope =
     (new_AmplitudeEnvelope example_envelope 1000)\<lparr>phase := phase_sustain, lastAmplitude := 1\<rparr>"

text \<open>
  The amount the forced-stop phase subtracts in one call, and the amplitudes of \<open>n\<close>
  calls in that phase from the amplitude \<open>a\<close>: each is the rounded difference, until one
  is not positive; from then on the envelope is stopped and the amplitude is 0.
\<close>

definition forceStop_step :: "real \<Rightarrow> nat \<Rightarrow> real" where
  "forceStop_step sr bufferSize =
     double (double (1 / double (forceStopReleaseTime * sr)) * real bufferSize)"

fun forceStop_ramp :: "real \<Rightarrow> nat \<Rightarrow> real \<Rightarrow> real list" where
  "forceStop_ramp d 0 a = []"
| "forceStop_ramp d (Suc n) a =
     (if double (a - d) \<le> 0 then replicate (Suc n) 0
      else double (a - d) # forceStop_ramp d n (double (a - d)))"

text \<open>
  An envelope at full amplitude in the hold phase, at a sample rate of 48000, as the
  attack phase leaves it.
\<close>

definition example_full_envelope :: AmplitudeEnvelope where
  "example_full_envelope =
     (new_AmplitudeEnvelope example_envelope 48000)\<lparr>phase := phase_hold, lastAmplitude := 1\<rparr>"





text \<open>
  The states of the reverb processor in which every read of the inner loop is inside
  its array: the five arrays have one entry per delay line, and each line is as long as
  its delay time, with its index inside it.
\<close>

definition reverb_wf :: "ReverbProcessor \<Rightarrow> bool" where
  "reverb_wf r \<longleftrightarrow>
     length (delayIndices r) = length (delayLines r)
     \<and> length (delayTimes r) = length (delayLines r)
     \<and> length (feedbacks r) = length (delayLines r)
     \<and> length (gains r) = length (delayLines r)
     \<and> list_all (\<lambda>d. delayIndices r ! d < length (delayLines r ! d)
                      \<and> delayTimes r ! d = int (length (delayLines r ! d)))
          [0 ..< length (delayLines r)]"


text \<open>
  A render job: one sample is loaded and registered for key 60 of bank 0, instrument 0,
  and the only musical event starts that note on channel 0 at time 0; no option is set.
\<close>

definition example_sample_events :: "synth_event list" where
  "example_sample_events =
     [LoadSample [0, 1, 0, - 1] 1,
      SampleParameter (example_parameter 1 None) (example_range 0 0 (60, 60))]"

definition example_note_events :: "synth_event list" where
  "example_note_events = [Midi (ChannelEvent 0 (NoteOn 60 100)) 0 0]"

definition no_options :: render_options where
  "no_options = \<lparr>opt_sampleRate = None, opt_bufferSize = None, opt_cancel = None\<rparr>"

text \<open>The synth of that job after \<open>renderAudio\<close> has submitted the events.\<close>

definition example_render_synth :: SynthProcessorCore where
  "example_render_synth =
     snd (add_events 0
            (fst (add_events 0 0 example_sample_events (new_SynthProcessorCore 44100)))
            example_note_events
            (snd (add_events 0 0 example_sample_events (new_SynthProcessorCore 44100))))"

text \<open>A cancel predicate that never holds, or none at all.\<close>

definition never_cancels :: "(nat \<Rightarrow> bool) option \<Rightarrow> bool" where
  "never_cancels cancel \<longleftrightarrow> (case cancel of None \<Rightarrow> True | Some p \<Rightarrow> \<forall>i. \<not> p i)"

chapter \<open>Properties\<close>

section \<open>Rounding\<close>

lemma powi_Suc: "(2 :: real) powi (k + 1) = 2 * 2 powi k"
  by (simp add: power_int_add)

lemma powi_pred: "(2 :: real) powi (k - 1) = 2 powi k / 2"
  by (simp add: power_int_diff)

lemma powi_pos: "0 < (2 :: real) powi k"
  by (simp add: zero_less_power_int)

lemma binade_bounds:
  "0 < x \<Longrightarrow> 2 powi binade x \<le> x \<and> x < 2 powi (binade x + 1)"
proof (induction x rule: binade.induct)
  case (1 x)
  show ?case
  proof (cases "2 \<le> x")
    case True
    define b where "b = binade (x / 2)"
    from 1 True have "2 powi b \<le> x / 2 \<and> x / 2 < 2 powi (b + 1)"
      by (simp add: b_def)
    then have "2 * 2 powi b \<le> x" "x < 2 * 2 powi (b + 1)" by simp_all
    then have "2 powi (b + 1) \<le> x" "x < 2 powi (b + 1 + 1)"
      by (simp_all only: powi_Suc)
    moreover have "binade x = b + 1"
      using True 1(3) unfolding b_def by (subst binade.simps) simp
    ultimately show ?thesis by simp
  next
    case False
    show ?thesis
    proof (cases "x < 1")
      case True
      define b where "b = binade (2 * x)"
      from 1 False True have "2 powi b \<le> 2 * x \<and> 2 * x < 2 powi (b + 1)"
        by (simp add: b_def)
      then have "2 powi b / 2 \<le> x" "x < 2 powi (b + 1) / 2" by simp_all
      moreover have "(2 :: real) powi (b + 1) / 2 = 2 powi b" by (simp add: powi_Suc)
      ultimately have "2 powi (b - 1) \<le> x" "x < 2 powi (b - 1 + 1)"
        by (simp_all only: powi_pred diff_add_cancel)
      moreover have "binade x = b - 1"
        using True False 1(3) unfolding b_def by (subst binade.simps) simp
      ultimately show ?thesis by simp
    next
      case nl: False
      have "binade x = 0"
        using False nl 1(3) by (subst binade.simps) simp
      with False nl show ?thesis by simp
    qed
  qed
qed

lemma powi_mono: "k \<le> l \<Longrightarrow> (2 :: real) powi k \<le> 2 powi l"
  by (rule power_int_increasing) simp_all

lemma binade_le:
  assumes "0 < x" and "x < 2 powi k"
  shows "binade x < k"
proof (rule ccontr)
  assume "\<not> binade x < k"
  then have "2 powi k \<le> (2 :: real) powi binade x" by (intro powi_mono) simp
  with binade_bounds [OF assms(1)] assms(2) show False by linarith
qed

lemma binade_ge:
  assumes "0 < x" and "2 powi k \<le> x"
  shows "k \<le> binade x"
proof (rule ccontr)
  assume "\<not> k \<le> binade x"
  then have "2 powi (binade x + 1) \<le> (2 :: real) powi k" by (intro powi_mono) simp
  with binade_bounds [OF assms(1)] assms(2) show False by linarith
qed

lemma round_ties_even_near:
  "\<bar>of_int (round_ties_even y) - y\<bar> \<le> 1 / 2"
proof -
  define f where "f = \<lfloor>y\<rfloor>"
  define r where "r = y - of_int f"
  have r: "0 \<le> r" "r < 1" unfolding r_def f_def by linarith+
  have y: "y = of_int f + r" by (simp add: r_def)
  show ?thesis
  proof (cases "r < 1 / 2 \<or> (r = 1 / 2 \<and> even f)")
    case True
    then have "round_ties_even y = f"
      unfolding round_ties_even_def Let_def f_def [symmetric] r_def [symmetric] by (simp only: if_True)
    moreover from True have "r \<le> 1 / 2" by auto
    ultimately show ?thesis using r y by simp
  next
    case False
    then have "round_ties_even y = f + 1"
      unfolding round_ties_even_def Let_def f_def [symmetric] r_def [symmetric] by (simp only: if_False)
    moreover from False have "1 / 2 \<le> r" by auto
    ultimately show ?thesis using r y by simp
  qed
qed

lemma round_ties_even_sign:
  "y \<le> 0 \<Longrightarrow> round_ties_even y \<le> 0" "0 \<le> y \<Longrightarrow> 0 \<le> round_ties_even y"
proof -
  assume "y \<le> 0"
  show "round_ties_even y \<le> 0"
  proof (cases "y = 0")
    case True
    then show ?thesis by (simp add: round_ties_even_def)
  next
    case False
    with \<open>y \<le> 0\<close> have "\<lfloor>y\<rfloor> \<le> - 1" by linarith
    then show ?thesis by (simp add: round_ties_even_def Let_def)
  qed
next
  assume "0 \<le> y"
  then have "0 \<le> \<lfloor>y\<rfloor>" by simp
  then show "0 \<le> round_ties_even y" by (simp add: round_ties_even_def Let_def)
qed

lemma double_sign:
  "x \<le> 0 \<Longrightarrow> double x \<le> 0" "0 \<le> x \<Longrightarrow> 0 \<le> double x"
proof -
  assume "x \<le> 0"
  then have "x / 2 powi max (binade \<bar>x\<bar> - 52) (- 1074) \<le> 0"
    using powi_pos by (simp add: divide_le_0_iff less_imp_le)
  then have "round_ties_even (x / 2 powi max (binade \<bar>x\<bar> - 52) (- 1074)) \<le> 0"
    by (rule round_ties_even_sign)
  then show "double x \<le> 0"
    using powi_pos [of "max (binade \<bar>x\<bar> - 52) (- 1074)"]
    by (simp add: double_def Let_def mult_le_0_iff)
next
  assume "0 \<le> x"
  then have "0 \<le> x / 2 powi max (binade \<bar>x\<bar> - 52) (- 1074)"
    using powi_pos by (simp add: less_imp_le)
  then have "0 \<le> round_ties_even (x / 2 powi max (binade \<bar>x\<bar> - 52) (- 1074))"
    by (rule round_ties_even_sign)
  then show "0 \<le> double x"
    using powi_pos [of "max (binade \<bar>x\<bar> - 52) (- 1074)"]
    by (simp add: double_def Let_def less_imp_le)
qed

lemma double_near:
  "\<bar>double x - x\<bar> \<le> 2 powi max (binade \<bar>x\<bar> - 52) (- 1074) / 2"
proof -
  define p :: real where "p = 2 powi max (binade \<bar>x\<bar> - 52) (- 1074)"
  have p: "0 < p" by (simp add: p_def powi_pos)
  have "\<bar>of_int (round_ties_even (x / p)) - x / p\<bar> \<le> 1 / 2"
    by (rule round_ties_even_near)
  then have "\<bar>of_int (round_ties_even (x / p)) - x / p\<bar> * p \<le> 1 / 2 * p"
    using p by (intro mult_right_mono) simp_all
  moreover have "\<bar>of_int (round_ties_even (x / p)) - x / p\<bar> * p
                   = \<bar>of_int (round_ties_even (x / p)) * p - x\<bar>"
  proof -
    have "\<bar>of_int (round_ties_even (x / p)) - x / p\<bar> * p
            = \<bar>(of_int (round_ties_even (x / p)) - x / p) * p\<bar>"
      using p by (simp add: abs_mult)
    also have "(of_int (round_ties_even (x / p)) - x / p) * p
                 = of_int (round_ties_even (x / p)) * p - x"
      using p by (simp add: field_simps)
    finally show ?thesis .
  qed
  ultimately have "\<bar>of_int (round_ties_even (x / p)) * p - x\<bar> \<le> p / 2" by simp
  moreover have "double x = of_int (round_ties_even (x / p)) * p"
    by (simp add: double_def Let_def p_def)
  ultimately show ?thesis by (simp only: p_def)
qed

text \<open>The absolute error of rounding on (0, 1].\<close>

lemma double_unit:
  assumes "0 < x" and "x \<le> 1"
  shows "\<bar>double x - x\<bar> \<le> 1 / 2 ^ 53"
proof -
  have "x < 2 powi 1" using assms by simp
  from binade_le [OF assms(1) this] have "binade \<bar>x\<bar> \<le> 0" using assms by simp
  then have "max (binade \<bar>x\<bar> - 52) (- 1074) \<le> - 52" by simp
  then have "(2 :: real) powi max (binade \<bar>x\<bar> - 52) (- 1074) \<le> 2 powi (- 52)"
    by (rule powi_mono)
  with double_near [of x] show ?thesis by (simp add: power_int_minus)
qed

text \<open>The relative error of rounding in the normal range.\<close>

lemma double_relative:
  assumes "1 / 2 ^ 1022 \<le> x"
  shows "\<bar>double x - x\<bar> \<le> x / 2 ^ 53"
proof -
  have x: "0 < x" using assms by (rule less_le_trans [rotated]) simp
  have "2 powi (- 1022) \<le> x" using assms by (simp add: power_int_minus divide_simps)
  from binade_ge [OF x this] have b: "- 1022 \<le> binade \<bar>x\<bar>" using x by simp
  then have m: "max (binade \<bar>x\<bar> - 52) (- 1074) = binade x - 52" using x by simp
  have "(2 :: real) powi (binade x - 52) = 2 powi binade x / 2 ^ 52"
    by (simp add: power_int_diff)
  also have "\<dots> \<le> x / 2 ^ 52"
    using binade_bounds [OF x] by (simp add: divide_right_mono)
  finally have "(2 :: real) powi (binade x - 52) / 2 \<le> x / 2 ^ 53" by simp
  with double_near [of x] show ?thesis unfolding m by linarith
qed

section \<open>Sample table\<close>

lemma registered_at_entries: "registered_at t b i k = entries_at (sampleParameters t) b i k"
  by (simp add: registered_at_def entries_at_def)

lemma entries_push:
  "entries_at (push_parameter b i r sp k) b' i' k' =
     (if b' = b \<and> i' = i \<and> k' = k then entries_at sp b i k @ [r] else entries_at sp b' i' k')"
  by (auto simp: entries_at_def push_parameter_def instrument_lookup_def Let_def
           split: option.splits)

lemma entries_foldl_push:
  "distinct ks \<Longrightarrow>
   entries_at (foldl (push_parameter b i r) sp ks) b' i' k' =
     (if b' = b \<and> i' = i \<and> k' \<in> set ks then entries_at sp b i k' @ [r]
      else entries_at sp b' i' k')"
proof (induction ks arbitrary: sp)
  case Nil
  then show ?case by simp
next
  case (Cons k ks)
  then show ?case by (auto simp: entries_push)
qed

lemma wf_push: "wf_parameters sp \<Longrightarrow> wf_parameters (push_parameter b i r sp k)"
  unfolding wf_parameters_def push_parameter_def instrument_lookup_def Let_def
  by (auto split: option.splits if_splits)

lemma wf_foldl_push: "wf_parameters sp \<Longrightarrow> wf_parameters (foldl (push_parameter b i r) sp ks)"
  by (induction ks arbitrary: sp) (auto intro: wf_push)

lemma reachable_wf: "reachable_table t \<Longrightarrow> wf_parameters (sampleParameters t)"
proof (induction rule: reachable_table.induct)
  case reachable_empty
  show ?case by (simp add: wf_parameters_def empty_SampleTable_def instrument_lookup_def)
next
  case (reachable_addSample t d sid)
  then show ?case by (simp add: addSample_def)
next
  case (reachable_addSampleParameter t p rg)
  then show ?case by (simp add: addSampleParameter_def wf_foldl_push)
qed

lemma attach_buffers_registered:
  "map registered (attach_buffers sm rs) = filter (\<lambda>r. sm (sampleID (parameter r)) \<noteq> None) rs"
  by (induction rs) (auto split: option.splits)

lemma attach_buffers_buffer:
  "s \<in> set (attach_buffers sm rs) \<Longrightarrow> sm (sampleID (parameter (registered s))) = Some (buffer s)"
  by (induction rs) (auto split: option.splits)

lemma getSamples_registered:
  "map registered (getSamples t b i k v) =
     filter (\<lambda>r. velocity_matches v r \<and> samples t (sampleID (parameter r)) \<noteq> None)
       (registered_at t (resolved_bank t b i) i k)"
  by (auto simp: getSamples_def registered_at_def resolved_bank_def attach_buffers_registered
        Let_def conj_commute split: option.splits)

lemma getSamples_buffer:
  "s \<in> set (getSamples t b i k v) \<Longrightarrow>
     samples t (sampleID (parameter (registered s))) = Some (buffer s)"
  by (auto simp: getSamples_def Let_def dest: attach_buffers_buffer)

lemma getSamples_fallback:
  "instrument_lookup (sampleParameters t) b i = None \<Longrightarrow>
     getSamples t b i k v = getSamples t 0 i k v"
  by (simp add: getSamples_def split: option.splits)

lemma getSamples_unresolved:
  "registered_at t (resolved_bank t b i) i k = [] \<Longrightarrow> getSamples t b i k v = []"
  by (auto simp: getSamples_def registered_at_def resolved_bank_def Let_def
           split: option.splits if_splits)

lemma registered_addSampleParameter:
  "registered_at (addSampleParameter p rg t) b i k =
     (if b = range_bank rg \<and> i = range_instrument rg
         \<and> fst (keyRange rg) \<le> k \<and> k \<le> snd (keyRange rg)
      then registered_at t b i k @ [\<lparr>parameter = p, velRange = range_velRange rg\<rparr>]
      else registered_at t b i k)"
  by (simp add: registered_at_entries addSampleParameter_def entries_foldl_push)

lemma example_table_params:
  "sampleParameters example_table =
     [0 \<mapsto> [0 \<mapsto> [60 \<mapsto> [\<lparr>parameter = example_parameter 1 None, velRange = (0, 127)\<rparr>],
                      61 \<mapsto> [\<lparr>parameter = example_parameter 1 None, velRange = (0, 127)\<rparr>]]]]"
  by (simp add: example_table_def addSampleParameter_def example_range_def empty_SampleTable_def
        push_parameter_def Let_def)

lemma example_table_samples: "samples example_table = Map.empty"
  by (simp add: example_table_def addSampleParameter_def empty_SampleTable_def)

lemma unregistered_lookup:
  assumes "wf_parameters (sampleParameters t)" and "\<forall>k. registered_at t b i k = []"
  shows "instrument_lookup (sampleParameters t) b i = None"
proof (cases "instrument_lookup (sampleParameters t) b i")
  case None
  then show ?thesis .
next
  case (Some ip)
  with assms(1) obtain k l where "ip k = Some l" "l \<noteq> []"
    unfolding wf_parameters_def by blast
  with Some have "registered_at t b i k \<noteq> []" by (simp add: registered_at_def)
  with assms(2) show ?thesis by simp
qed

text \<open>
  C2 (as amended): \<open>getSamples\<close> returns, in registration order, exactly the parameters
  registered at the key of the resolved (bank, instrument) whose inclusive velocity range
  contains the velocity and whose sample buffer is loaded, each with the buffer stored
  under its sample id; the bank is bank 0 when (bank, instrument) has no entry; a key or
  instrument without entries gives the empty list; \<open>addSampleParameter\<close> appends the
  parameter to the list of each key of the key range and changes nothing else.
\<close>

theorem getSamples_returns_loaded_matches:
  "map registered (getSamples t b i k v) =
     filter (\<lambda>r. velocity_matches v r \<and> samples t (sampleID (parameter r)) \<noteq> None)
       (registered_at t (resolved_bank t b i) i k)
   \<and> (\<forall>s \<in> set (getSamples t b i k v).
         samples t (sampleID (parameter (registered s))) = Some (buffer s))
   \<and> (instrument_lookup (sampleParameters t) b i = None \<longrightarrow>
         getSamples t b i k v = getSamples t 0 i k v)
   \<and> (registered_at t (resolved_bank t b i) i k = [] \<longrightarrow> getSamples t b i k v = [])
   \<and> registered_at (addSampleParameter p rg t) b i k =
       (if b = range_bank rg \<and> i = range_instrument rg
           \<and> fst (keyRange rg) \<le> k \<and> k \<le> snd (keyRange rg)
        then registered_at t b i k @ [\<lparr>parameter = p, velRange = range_velRange rg\<rparr>]
        else registered_at t b i k)
   \<and> samples (addSampleParameter p rg t) = samples t"
  using getSamples_registered getSamples_buffer getSamples_fallback getSamples_unresolved
    registered_addSampleParameter
  by (simp add: addSampleParameter_def)

theorem getSamples_returns_loaded_matches_witness:
  "map registered (getSamples (addSample [0, 1, 0, - 1] 1 example_table) 5 0 60 100)
     = [\<lparr>parameter = example_parameter 1 None, velRange = (0, 127)\<rparr>]
   \<and> map buffer (getSamples (addSample [0, 1, 0, - 1] 1 example_table) 5 0 60 100)
       = [[0, 1, 0, - 1]]
   \<and> instrument_lookup (sampleParameters (addSample [0, 1, 0, - 1] 1 example_table)) 5 0 = None
   \<and> registered_at (addSample [0, 1, 0, - 1] 1 example_table) 0 0 62 = []
   \<and> getSamples (addSample [0, 1, 0, - 1] 1 example_table) 0 0 62 100 = []
   \<and> registered_at
       (addSampleParameter (example_parameter 2 None) (example_range 0 0 (60, 60)) example_table)
       0 0 60
     = [\<lparr>parameter = example_parameter 1 None, velRange = (0, 127)\<rparr>,
        \<lparr>parameter = example_parameter 2 None, velRange = (0, 127)\<rparr>]"
proof -
  let ?t = "addSample [0, 1, 0, - 1] 1 example_table"
  have p: "sampleParameters ?t = sampleParameters example_table"
    and s: "samples ?t = [1 \<mapsto> [0, 1, 0, - 1]]"
    by (simp_all add: addSample_def example_table_samples)
  have l5: "instrument_lookup (sampleParameters ?t) 5 0 = None"
    by (simp add: p example_table_params instrument_lookup_def)
  have r62: "registered_at ?t (resolved_bank ?t 0 0) 0 62 = []"
    by (simp add: registered_at_def resolved_bank_def p example_table_params instrument_lookup_def)
  have r62': "registered_at ?t 0 0 62 = []"
    by (simp add: registered_at_def p example_table_params instrument_lookup_def)
  have g: "getSamples ?t 5 0 60 100 =
             [\<lparr>registered = \<lparr>parameter = example_parameter 1 None, velRange = (0, 127)\<rparr>,
               buffer = [0, 1, 0, - 1]\<rparr>]"
    by (simp add: getSamples_def p s example_table_params instrument_lookup_def
          velocity_matches_def example_parameter_def)
  have old: "registered_at example_table 0 0 60
               = [\<lparr>parameter = example_parameter 1 None, velRange = (0, 127)\<rparr>]"
    by (simp add: registered_at_def example_table_params instrument_lookup_def)
  note thm1 = getSamples_returns_loaded_matches
                [of ?t 0 0 62 100 "example_parameter 2 None" "example_range 0 0 (60, 60)"]
  note thm2 = getSamples_returns_loaded_matches
                [of example_table 0 0 60 100 "example_parameter 2 None" "example_range 0 0 (60, 60)"]
  from thm1 r62 have e62: "getSamples ?t 0 0 62 100 = []" by blast
  from thm2 have
    "registered_at
       (addSampleParameter (example_parameter 2 None) (example_range 0 0 (60, 60)) example_table)
       0 0 60
     = registered_at example_table 0 0 60
         @ [\<lparr>parameter = example_parameter 2 None, velRange = (0, 127)\<rparr>]"
    by (simp add: example_range_def)
  with old g l5 r62' e62 show ?thesis by simp
qed

text \<open>
  The claim C2 as stated, without the condition that the sample is loaded, fails on the
  example table: the parameter registered for key 60 matches velocity 100, and
  \<open>getSamples\<close> returns nothing because no buffer is stored under its sample id.
\<close>

theorem getSamples_skips_unloaded_counterexample:
  "map registered (getSamples example_table 0 0 60 100)
     \<noteq> filter (velocity_matches 100)
         (registered_at example_table (resolved_bank example_table 0 0) 0 60)"
  by (simp add: getSamples_def registered_at_def resolved_bank_def instrument_lookup_def
        example_table_params example_table_samples velocity_matches_def Let_def)

text \<open>
  C9: in a table built by \<open>addSample\<close> and \<open>addSampleParameter\<close>, when no parameter is
  registered under (b, i), \<open>getSamples b i\<close> is the lookup under (0, i), whatever else
  bank b holds; when (b, i) has a registered key, the result comes from the entries of
  (b, i) alone.
\<close>

theorem getSamples_fallback_per_instrument:
  assumes "reachable_table t"
  shows "((\<forall>k'. registered_at t b i k' = []) \<longrightarrow>
            getSamples t b i k v = getSamples t 0 i k v)
       \<and> ((\<exists>k'. registered_at t b i k' \<noteq> []) \<longrightarrow>
            map registered (getSamples t b i k v) =
              filter (\<lambda>r. velocity_matches v r \<and> samples t (sampleID (parameter r)) \<noteq> None)
                (registered_at t b i k))"
proof (intro conjI impI)
  assume "\<forall>k'. registered_at t b i k' = []"
  with reachable_wf [OF assms] have "instrument_lookup (sampleParameters t) b i = None"
    by (rule unregistered_lookup)
  then show "getSamples t b i k v = getSamples t 0 i k v"
    by (rule getSamples_fallback)
next
  assume "\<exists>k'. registered_at t b i k' \<noteq> []"
  then have "instrument_lookup (sampleParameters t) b i \<noteq> None"
    by (auto simp: registered_at_def split: option.splits)
  then have "resolved_bank t b i = b"
    by (auto simp: resolved_bank_def)
  with getSamples_registered [of t b i k v]
  show "map registered (getSamples t b i k v) =
          filter (\<lambda>r. velocity_matches v r \<and> samples t (sampleID (parameter r)) \<noteq> None)
            (registered_at t b i k)"
    by simp
qed


lemma example_table_banks_params:
  "sampleParameters example_table_banks =
     [0 \<mapsto> [0 \<mapsto> [60 \<mapsto> [\<lparr>parameter = example_parameter 1 None, velRange = (0, 127)\<rparr>],
                      61 \<mapsto> [\<lparr>parameter = example_parameter 1 None, velRange = (0, 127)\<rparr>]]],
      5 \<mapsto> [1 \<mapsto> [60 \<mapsto> [\<lparr>parameter = example_parameter 1 None, velRange = (0, 127)\<rparr>]]]]"
  by (simp add: example_table_banks_def addSampleParameter_def example_range_def
        example_table_params push_parameter_def Let_def)

theorem getSamples_fallback_per_instrument_witness:
  "reachable_table example_table_banks
   \<and> instrument_lookup (sampleParameters example_table_banks) 5 1 \<noteq> None
   \<and> (\<forall>k'. registered_at example_table_banks 5 0 k' = [])
   \<and> getSamples example_table_banks 5 0 60 100 = getSamples example_table_banks 0 0 60 100
   \<and> (\<exists>k'. registered_at example_table_banks 5 1 k' \<noteq> [])
   \<and> map registered (getSamples example_table_banks 5 1 60 100) =
       filter (\<lambda>r. velocity_matches 100 r
                    \<and> samples example_table_banks (sampleID (parameter r)) \<noteq> None)
         (registered_at example_table_banks 5 1 60)"
proof -
  have r: "reachable_table example_table_banks"
    unfolding example_table_banks_def example_table_def by (intro reachable_table.intros)
  have l: "instrument_lookup (sampleParameters example_table_banks) 5 1 \<noteq> None"
    by (simp add: example_table_banks_params instrument_lookup_def)
  have none: "\<forall>k'. registered_at example_table_banks 5 0 k' = []"
    by (simp add: registered_at_def example_table_banks_params instrument_lookup_def)
  have some: "\<exists>k'. registered_at example_table_banks 5 1 k' \<noteq> []"
    by (rule exI [of _ 60])
       (simp add: registered_at_def example_table_banks_params instrument_lookup_def)
  from getSamples_fallback_per_instrument [OF r, of 5 0 60 100] none
  have a: "getSamples example_table_banks 5 0 60 100 = getSamples example_table_banks 0 0 60 100"
    by blast
  from getSamples_fallback_per_instrument [OF r, of 5 1 60 100] some
  have b: "map registered (getSamples example_table_banks 5 1 60 100) =
       filter (\<lambda>r. velocity_matches 100 r
                    \<and> samples example_table_banks (sampleID (parameter r)) \<noteq> None)
         (registered_at example_table_banks 5 1 60)"
    by blast
  from r l none some a b show ?thesis by blast
qed

section \<open>Scheduler\<close>












lemma sched_update_channel: "eventScheduler (update_channel ch f c) = eventScheduler c"
  by (simp add: update_channel_def getChannelState_def split: option.splits prod.splits)

lemma sched_handleDelayableEvent:
  "eventScheduler (handleDelayableEvent m c) =
     (case m of
        ChannelEvent ch (Controller t v) \<Rightarrow>
          (if t = 0x78 then removeScheduledEvents ch (eventScheduler c) else eventScheduler c)
      | _ \<Rightarrow> eventScheduler c)"
proof (cases m)
  case (ChannelEvent ch ev)
  then show ?thesis
    by (cases ev)
       (simp_all add: sched_update_channel noteOn_def noteOff_def pitchBend_def
          programChange_def handleController_def setPitchBendSensitivity_def setMainVolume_def
          expression_def allSoundsOff_def allNotesOff_def hold_def setPan_def modulation_def
          bankSelect_def resetChannel_def getChannelState_def Let_def split: option.splits)
next
  case MetaEvent
  then show ?thesis by simp
qed


























text \<open>
  C6: \<open>removeScheduledEvents\<close> keeps, in their order, exactly the pending events and the
  popped events whose payload does not carry the channel (events of other channels and
  events without a channel), and leaves the reverb queues as they are.
\<close>

theorem removeScheduledEvents_only_channel:
  "scheduledEvents (removeScheduledEvents ch s)
     = filter (\<lambda>e. midi_channel (midi e) \<noteq> Some ch) (scheduledEvents s)
   \<and> currentEvents (removeScheduledEvents ch s)
     = filter (\<lambda>e. midi_channel (midi e) \<noteq> Some ch) (currentEvents s)
   \<and> (\<forall>e. e \<in> set (scheduledEvents (removeScheduledEvents ch s))
           \<longleftrightarrow> e \<in> set (scheduledEvents s) \<and> midi_channel (midi e) \<noteq> Some ch)
   \<and> (\<forall>e. e \<in> set (currentEvents (removeScheduledEvents ch s))
           \<longleftrightarrow> e \<in> set (currentEvents s) \<and> midi_channel (midi e) \<noteq> Some ch)
   \<and> subseq (scheduledEvents (removeScheduledEvents ch s)) (scheduledEvents s)
   \<and> subseq (currentEvents (removeScheduledEvents ch s)) (currentEvents s)
   \<and> scheduledReverbEvents (removeScheduledEvents ch s) = scheduledReverbEvents s
   \<and> currentReverbEvents (removeScheduledEvents ch s) = currentReverbEvents s"
  by (simp add: removeScheduledEvents_def)

theorem removeScheduledEvents_only_channel_witness:
  "scheduledEvents (removeScheduledEvents 0 example_scheduler)
     = [scheduled_at 0 (ChannelEvent 1 (NoteOn 62 100)) 10 1, scheduled_at 0 MetaEvent 15 2]
   \<and> currentEvents (removeScheduledEvents 0 example_scheduler)
     = [scheduled_at 0 (ChannelEvent 1 (NoteOff 62)) 1 4]
   \<and> scheduledReverbEvents (removeScheduledEvents 0 example_scheduler)
     = [\<lparr>amount = 0.5, reverb_delayTime = 5, reverb_scheduledFrame = 5\<rparr>]"
  using removeScheduledEvents_only_channel [of 0 example_scheduler]
  by (simp add: example_scheduler_def scheduled_at_def)

section \<open>Voice stealing in noteOn\<close>

lemma steal_Nil: "steal [] osc = osc"
  by (simp add: steal_def)

lemma class_forceStop: "osc_exclusiveClass (osc_forceStop osc) = osc_exclusiveClass osc"
  by (simp add: osc_exclusiveClass_def osc_forceStop_def sample_of_def)

lemma forceStop_idem: "osc_forceStop (osc_forceStop osc) = osc_forceStop osc"
  by (simp add: osc_forceStop_def env_forceStop_def set_phase_def)

lemma phase_forceStop: "phase (envelope (osc_forceStop osc)) = phase_forceStop"
  by (simp add: osc_forceStop_def env_forceStop_def set_phase_def)

lemma steal_Cons:
  "steal ss (case sample_class s of
               None \<Rightarrow> osc
             | Some x \<Rightarrow> if osc_exclusiveClass osc = Some x then osc_forceStop osc else osc)
     = steal (s # ss) osc"
  by (cases "sample_class s")
     (auto simp: steal_def class_forceStop forceStop_idem)

lemma voices_exclusive_sweep:
  "channel_voices (exclusive_sweep cls st) k =
     map (\<lambda>osc. case cls of
                   None \<Rightarrow> osc
                 | Some x \<Rightarrow> if osc_exclusiveClass osc = Some x then osc_forceStop osc else osc)
       (channel_voices st k)"
  by (cases cls)
     (auto simp: exclusive_sweep_def channel_voices_def map_oscillators_def split: option.splits)

lemma voices_noteOn_sample:
  "channel_voices (noteOn_sample sr key vel s st) k =
     map (\<lambda>osc. case sample_class s of
                   None \<Rightarrow> osc
                 | Some x \<Rightarrow> if osc_exclusiveClass osc = Some x then osc_forceStop osc else osc)
       (channel_voices st k)
     @ (if k = key then [fresh_voice sr key vel s] else [])"
proof -
  define st1 where "st1 = (if oscillators st key = None
                 then st\<lparr>oscillators := (oscillators st)(key \<mapsto> [])\<rparr> else st)"
  have v1: "channel_voices st1 k = channel_voices st k"
    by (auto simp: st1_def channel_voices_def split: option.splits)
  define st2 where "st2 = exclusive_sweep (sample_class s) st1"
  have "noteOn_sample sr key vel s st =
          st2\<lparr>oscillators := (oscillators st2)(key \<mapsto> channel_voices st2 key @ [fresh_voice sr key vel s])\<rparr>"
    by (simp add: noteOn_sample_def Let_def st1_def st2_def sample_class_def fresh_voice_def
          channel_voices_def)
  then have "channel_voices (noteOn_sample sr key vel s st) k =
          channel_voices st2 k @ (if k = key then [fresh_voice sr key vel s] else [])"
    by (simp add: channel_voices_def)
  then show ?thesis
    by (simp add: st2_def voices_exclusive_sweep v1)
qed

lemma voices_noteOn_samples:
  "channel_voices (noteOn_samples sr key vel found st) k =
     map (steal found) (channel_voices st k)
     @ (if k = key then new_voices sr key vel found else [])"
proof (induction found arbitrary: st)
  case Nil
  show ?case by (simp add: steal_Nil [abs_def])
next
  case (Cons s ss)
  show ?case
    by (simp add: Cons.IH voices_noteOn_sample steal_Cons)
qed

lemma getSamples_after_getChannelState:
  "core_getSamples ch key vel (snd (getChannelState ch c)) = core_getSamples ch key vel c"
  by (simp add: core_getSamples_def getChannelState_def split: option.splits)

lemma voices_getChannelState:
  "voices_at (snd (getChannelState ch c)) ch' k = voices_at c ch' k"
  by (simp add: getChannelState_def voices_at_def channel_voices_def initialChannelState_def
        split: option.splits)

lemma voices_update_channel:
  "voices_at (update_channel ch f c) ch' k =
     (if ch' = ch then channel_voices (f (fst (getChannelState ch c))) k else voices_at c ch' k)"
  by (simp add: update_channel_def getChannelState_def voices_at_def split: option.splits)

lemma voices_fst_getChannelState:
  "channel_voices (fst (getChannelState ch c)) k = voices_at c ch k"
  by (simp add: getChannelState_def voices_at_def channel_voices_def initialChannelState_def
        split: option.splits)

lemma voices_noteOn:
  "voices_at (noteOn ch key vel c) ch' k =
     (if ch' = ch
      then map (steal (core_getSamples ch key vel c)) (voices_at c ch k)
           @ (if k = key
              then new_voices (core_sampleRate c) key vel (core_getSamples ch key vel c) else [])
      else voices_at c ch' k)"
proof -
  define c1 where "c1 = snd (getChannelState ch c)"
  define found where "found = core_getSamples ch key vel c"
  have sr: "core_sampleRate c1 = core_sampleRate c"
    by (simp add: c1_def getChannelState_def split: option.splits)
  have f1: "core_getSamples ch key vel c1 = found"
    by (simp add: c1_def found_def getSamples_after_getChannelState)
  have v1: "voices_at c1 ch' k = voices_at c ch' k" for ch'
    by (simp add: c1_def voices_getChannelState)
  show ?thesis
  proof (cases "found = []")
    case True
    then have "noteOn ch key vel c = c1"
      by (simp add: noteOn_def Let_def c1_def [symmetric] f1)
    with True show ?thesis
      by (simp add: v1 found_def [symmetric] steal_Nil [abs_def])
  next
    case False
    then have "noteOn ch key vel c =
                 update_channel ch (noteOn_samples (core_sampleRate c) key vel found) c1"
      by (simp add: noteOn_def Let_def c1_def [symmetric] f1 sr)
    then show ?thesis
      by (simp add: voices_update_channel voices_noteOn_samples voices_fst_getChannelState v1
            found_def [symmetric])
  qed
qed

text \<open>
  C3: a \<open>noteOn\<close> leaves an oscillator of the channel, at any key, force-stopped when its
  exclusive class is the class X of one of the resolved samples, and leaves it as it was
  when it has no exclusive class or a class that no resolved sample has; oscillators of
  other channels are not touched.
\<close>

theorem noteOn_steals_same_class_only:
  assumes "i < length (voices_at c ch k)"
  shows "i < length (voices_at (noteOn ch key vel c) ch k)
       \<and> (osc_exclusiveClass (voices_at c ch k ! i) = Some X
            \<and> Some X \<in> sample_class ` set (core_getSamples ch key vel c)
          \<longrightarrow> voices_at (noteOn ch key vel c) ch k ! i = osc_forceStop (voices_at c ch k ! i)
              \<and> phase (envelope (voices_at (noteOn ch key vel c) ch k ! i)) = phase_forceStop)
       \<and> (osc_exclusiveClass (voices_at c ch k ! i) = None
            \<or> osc_exclusiveClass (voices_at c ch k ! i)
                 \<notin> sample_class ` set (core_getSamples ch key vel c)
          \<longrightarrow> voices_at (noteOn ch key vel c) ch k ! i = voices_at c ch k ! i)
       \<and> (ch' \<noteq> ch \<longrightarrow> voices_at (noteOn ch key vel c) ch' k = voices_at c ch' k)"
  using assms
  by (auto simp: voices_noteOn nth_append steal_def phase_forceStop)

text \<open>
  C10: the oscillators of the note's key after \<open>noteOn\<close> are the earlier ones, swept,
  followed by one new oscillator per resolved sample, each swept only for the samples
  after its own. With exactly one sample the new oscillator is as \<open>noteOn\<close> created it,
  in the attack phase; with several, the oscillator of a sample is in the forced-stop
  phase when a later sample has the same exclusive class.
\<close>

theorem noteOn_appends_after_sweep:
  "voices_at (noteOn ch key vel c) ch key =
     map (steal (core_getSamples ch key vel c)) (voices_at c ch key)
     @ new_voices (core_sampleRate c) key vel (core_getSamples ch key vel c)
   \<and> (core_getSamples ch key vel c = [s] \<longrightarrow>
        last (voices_at (noteOn ch key vel c) ch key) = fresh_voice (core_sampleRate c) key vel s
        \<and> phase (envelope (last (voices_at (noteOn ch key vel c) ch key))) = phase_attack)
   \<and> (\<forall>i j. i < j \<and> j < length (core_getSamples ch key vel c)
          \<and> sample_class (core_getSamples ch key vel c ! i) = Some X
          \<and> sample_class (core_getSamples ch key vel c ! j) = Some X
        \<longrightarrow> phase (envelope (voices_at (noteOn ch key vel c) ch key
                               ! (length (voices_at c ch key) + i))) = phase_forceStop)"
proof -
  define found where "found = core_getSamples ch key vel c"
  define sr where "sr = core_sampleRate c"
  have v: "voices_at (noteOn ch key vel c) ch key =
             map (steal found) (voices_at c ch key) @ new_voices sr key vel found"
    by (simp add: voices_noteOn found_def sr_def)
  have fresh: "phase (envelope (fresh_voice sr key vel s)) = phase_attack" for s
    by (simp add: fresh_voice_def osc_noteOn_def new_WavetableOscillator_def env_noteOn_def
          set_phase_def new_AmplitudeEnvelope_def)
  have cls: "osc_exclusiveClass (fresh_voice sr key vel s) = sample_class s" for s
    by (simp add: fresh_voice_def osc_noteOn_def new_WavetableOscillator_def
          osc_exclusiveClass_def sample_of_def sample_class_def)
  have nth_new: "i < length ss \<Longrightarrow>
      length (new_voices sr key vel ss) = length ss
      \<and> new_voices sr key vel ss ! i = steal (drop (Suc i) ss) (fresh_voice sr key vel (ss ! i))"
    for i ss
  proof (induction ss arbitrary: i)
    case Nil
    then show ?case by simp
  next
    case (Cons a ss)
    have len: "length (new_voices sr key vel xs) = length xs" for xs
      by (induction xs) simp_all
    show ?case using Cons by (cases i) (simp_all add: len)
  qed
  have one: "last (voices_at (noteOn ch key vel c) ch key) = fresh_voice sr key vel s
        \<and> phase (envelope (last (voices_at (noteOn ch key vel c) ch key))) = phase_attack"
    if "found = [s]"
    using that by (simp add: v steal_Nil fresh)
  have many: "phase (envelope (voices_at (noteOn ch key vel c) ch key
                               ! (length (voices_at c ch key) + i))) = phase_forceStop"
    if "i < j" "j < length found" "sample_class (found ! i) = Some X"
      "sample_class (found ! j) = Some X" for i j
  proof -
    from that have i: "i < length found" by simp
    have "found ! j \<in> set (drop (Suc i) found)"
      using that by (auto simp: in_set_conv_nth intro!: exI [of _ "j - Suc i"])
    then have "Some X \<in> sample_class ` set (drop (Suc i) found)"
      using that(4) by force
    then have "steal (drop (Suc i) found) (fresh_voice sr key vel (found ! i))
                 = osc_forceStop (fresh_voice sr key vel (found ! i))"
      using that(3) by (simp add: steal_def cls)
    with nth_new [OF i] show ?thesis
      by (simp add: v nth_append phase_forceStop)
  qed
  from v one many show ?thesis
    unfolding found_def sr_def by blast
qed

lemma example_kit_table:
  "sampleParameters example_kit =
     [0 \<mapsto> [0 \<mapsto> [42 \<mapsto> [\<lparr>parameter = example_parameter 1 (Some 1), velRange = (0, 127)\<rparr>],
                      46 \<mapsto> [\<lparr>parameter = example_parameter 1 (Some 1), velRange = (0, 127)\<rparr>],
                      60 \<mapsto> [\<lparr>parameter = example_parameter 1 None, velRange = (0, 127)\<rparr>],
                      50 \<mapsto> [\<lparr>parameter = example_parameter 1 (Some 7), velRange = (0, 127)\<rparr>,
                              \<lparr>parameter = example_parameter 1 (Some 7), velRange = (0, 127)\<rparr>]]]]"
  "samples example_kit = [1 \<mapsto> [0, 1, 0, - 1]]"
  by (simp_all add: example_kit_def addSample_def addSampleParameter_def example_range_def
        empty_SampleTable_def push_parameter_def Let_def)

lemma example_kit_getSamples:
  "getSamples example_kit 0 0 42 100 = [example_sample (Some 1)]"
  "getSamples example_kit 0 0 46 100 = [example_sample (Some 1)]"
  "getSamples example_kit 0 0 60 100 = [example_sample None]"
  "getSamples example_kit 0 0 50 100 = [example_sample (Some 7), example_sample (Some 7)]"
  by (simp_all add: getSamples_def example_kit_table instrument_lookup_def velocity_matches_def
        example_sample_def example_parameter_def)

lemma getSamples_noteOn:
  "core_getSamples ch' k v (noteOn ch key vel c) = core_getSamples ch' k v c"
proof -
  have keep: "ch_bank (noteOn_samples sr key vel ss st) = ch_bank st
            \<and> ch_instrument (noteOn_samples sr key vel ss st) = ch_instrument st" for sr ss st
    by (induction ss arbitrary: st)
       (simp_all add: noteOn_sample_def Let_def exclusive_sweep_def map_oscillators_def
          split: option.splits)
  show ?thesis
    by (auto simp: core_getSamples_def noteOn_def Let_def update_channel_def getChannelState_def
          keep initialChannelState_def split: option.splits)
qed

lemma example_synth_getSamples:
  "core_getSamples 0 k 100 example_synth = getSamples example_kit 0 0 k 100"
  by (simp add: core_getSamples_def example_synth_def new_SynthProcessorCore_def
        getChannelState_def initialChannelState_def RHYTHM_CHANNEL_def)

lemma example_playing_getSamples:
  "core_getSamples 0 k 100 example_playing = getSamples example_kit 0 0 k 100"
  by (simp add: example_playing_def getSamples_noteOn example_synth_getSamples)

lemma example_synth_voices: "voices_at example_synth ch k = []"
  by (simp add: voices_at_def example_synth_def new_SynthProcessorCore_def)

lemma sample_class_example: "sample_class (example_sample cls) = cls"
  by (simp add: sample_class_def example_sample_def example_parameter_def)

lemma class_fresh: "osc_exclusiveClass (fresh_voice sr key vel s) = sample_class s"
  by (simp add: fresh_voice_def osc_noteOn_def new_WavetableOscillator_def
        osc_exclusiveClass_def sample_of_def sample_class_def)

lemma phase_fresh: "phase (envelope (fresh_voice sr key vel s)) = phase_attack"
  by (simp add: fresh_voice_def osc_noteOn_def new_WavetableOscillator_def env_noteOn_def
        set_phase_def new_AmplitudeEnvelope_def)

lemma example_playing_voices:
  "voices_at example_playing 0 46 = [fresh_voice 44100 46 100 (example_sample (Some 1))]"
  "voices_at example_playing 0 60 = [fresh_voice 44100 60 100 (example_sample None)]"
  by (simp_all add: example_playing_def voices_noteOn getSamples_noteOn example_synth_getSamples
        example_kit_getSamples example_synth_voices steal_def class_fresh sample_class_example)
     (simp_all add: example_synth_def new_SynthProcessorCore_def noteOn_def Let_def
        getChannelState_def update_channel_def split: prod.splits)

theorem noteOn_steals_same_class_only_witness:
  "length (voices_at example_playing 0 46) = 1
   \<and> osc_exclusiveClass (voices_at example_playing 0 46 ! 0) = Some 1
   \<and> Some 1 \<in> sample_class ` set (core_getSamples 0 42 100 example_playing)
   \<and> phase (envelope (voices_at example_playing 0 46 ! 0)) = phase_attack
   \<and> phase (envelope (voices_at (noteOn 0 42 100 example_playing) 0 46 ! 0)) = phase_forceStop
   \<and> length (voices_at example_playing 0 60) = 1
   \<and> osc_exclusiveClass (voices_at example_playing 0 60 ! 0) = None
   \<and> voices_at (noteOn 0 42 100 example_playing) 0 60 ! 0 = voices_at example_playing 0 60 ! 0"
proof -
  have l46: "0 < length (voices_at example_playing 0 46)"
    and l60: "0 < length (voices_at example_playing 0 60)"
    by (simp_all add: example_playing_voices)
  have c46: "osc_exclusiveClass (voices_at example_playing 0 46 ! 0) = Some 1"
    and c60: "osc_exclusiveClass (voices_at example_playing 0 60 ! 0) = None"
    by (simp_all add: example_playing_voices class_fresh sample_class_example)
  have s42: "Some 1 \<in> sample_class ` set (core_getSamples 0 42 100 example_playing)"
    by (simp add: example_playing_getSamples example_kit_getSamples sample_class_example)
  have p46: "phase (envelope (voices_at example_playing 0 46 ! 0)) = phase_attack"
    by (simp add: example_playing_voices phase_fresh)
  from noteOn_steals_same_class_only [OF l46, of 42 100 1] c46 s42
  have a: "phase (envelope (voices_at (noteOn 0 42 100 example_playing) 0 46 ! 0)) = phase_forceStop"
    by blast
  from noteOn_steals_same_class_only [OF l60, of 42 100 1] c60
  have b: "voices_at (noteOn 0 42 100 example_playing) 0 60 ! 0 = voices_at example_playing 0 60 ! 0"
    by blast
  from a b c46 c60 s42 p46 show ?thesis
    by (simp add: example_playing_voices)
qed

theorem noteOn_appends_after_sweep_witness:
  "core_getSamples 0 60 100 example_synth = [example_sample None]
   \<and> voices_at (noteOn 0 60 100 example_synth) 0 60
       = [fresh_voice 44100 60 100 (example_sample None)]
   \<and> phase (envelope (last (voices_at (noteOn 0 60 100 example_synth) 0 60))) = phase_attack
   \<and> core_getSamples 0 50 100 example_synth = [example_sample (Some 7), example_sample (Some 7)]
   \<and> length (voices_at (noteOn 0 50 100 example_synth) 0 50) = 2
   \<and> phase (envelope (voices_at (noteOn 0 50 100 example_synth) 0 50 ! 0)) = phase_forceStop
   \<and> phase (envelope (voices_at (noteOn 0 50 100 example_synth) 0 50 ! 1)) = phase_attack"
proof -
  have sr: "core_sampleRate example_synth = 44100"
    by (simp add: example_synth_def new_SynthProcessorCore_def)
  have g60: "core_getSamples 0 60 100 example_synth = [example_sample None]"
    and g50: "core_getSamples 0 50 100 example_synth
                = [example_sample (Some 7), example_sample (Some 7)]"
    by (simp_all add: example_synth_getSamples example_kit_getSamples)
  note T60 = noteOn_appends_after_sweep [of 0 60 100 example_synth "example_sample None" 7]
  note T50 = noteOn_appends_after_sweep [of 0 50 100 example_synth "example_sample None" 7]
  from T60 have v60: "voices_at (noteOn 0 60 100 example_synth) 0 60
       = [fresh_voice 44100 60 100 (example_sample None)]"
    by (simp add: g60 sr example_synth_voices steal_def)
  from T60 g60 have p60:
    "phase (envelope (last (voices_at (noteOn 0 60 100 example_synth) 0 60))) = phase_attack"
    by blast
  from T50 have v50: "length (voices_at (noteOn 0 50 100 example_synth) 0 50) = 2"
    by (simp add: g50 sr example_synth_voices)
  have "(0::nat) < 1 \<and> 1 < length (core_getSamples 0 50 100 example_synth)
        \<and> sample_class (core_getSamples 0 50 100 example_synth ! 0) = Some 7
        \<and> sample_class (core_getSamples 0 50 100 example_synth ! 1) = Some 7"
    by (simp add: g50 sample_class_example)
  with T50 have
    "phase (envelope (voices_at (noteOn 0 50 100 example_synth) 0 50
                        ! (length (voices_at example_synth 0 50) + 0))) = phase_forceStop"
    by blast
  then have p0: "phase (envelope (voices_at (noteOn 0 50 100 example_synth) 0 50 ! 0)) = phase_forceStop"
    by (simp add: example_synth_voices)
  from T50 have p1: "phase (envelope (voices_at (noteOn 0 50 100 example_synth) 0 50 ! 1)) = phase_attack"
    by (simp add: g50 sr example_synth_voices steal_def phase_fresh)
  from g60 v60 p60 g50 v50 p0 p1 show ?thesis by simp
qed

section \<open>Forced stop of the envelope\<close>

lemma getAmplitude_stopped:
  "phase e = phase_stopped \<Longrightarrow>
     \<exists>e'. getAmplitude (Some g) bs e = Inr (0, e') \<and> phase e' = phase_stopped"
  by (simp add: getAmplitude_def calculateAmplitude_def Let_def)

lemma getAmplitudes_stopped:
  "phase e = phase_stopped \<Longrightarrow>
     \<exists>e'. getAmplitudes (Some g) bs n e = Inr (replicate n 0, e') \<and> phase e' = phase_stopped"
proof (induction n arbitrary: e)
  case 0
  then show ?case by simp
next
  case (Suc n)
  from getAmplitude_stopped [OF Suc.prems, of g bs]
  obtain e1 where e1: "getAmplitude (Some g) bs e = Inr (0, e1)" "phase e1 = phase_stopped"
    by blast
  from Suc.IH [OF e1(2)] obtain e2
    where "getAmplitudes (Some g) bs n e1 = Inr (replicate n 0, e2)" "phase e2 = phase_stopped"
    by blast
  with e1 show ?case by simp
qed

text \<open>
  Where the identifier \<open>sampleRate\<close> is unbound, no call of \<open>getAmplitude\<close> returns.
\<close>

lemma getAmplitude_unbound: "getAmplitude None bs e = Inl ReferenceError"
  by (simp add: getAmplitude_def Let_def split: prod.splits)

text \<open>The forced-stop phase where it is bound: the step and its rounding.\<close>

lemma forceStopReleaseTime_value: "forceStopReleaseTime = 3602879701896397 / 2 ^ 55"
  by (simp add: forceStopReleaseTime_def double_def binade.simps round_ties_even_def Let_def)

lemma double_lower:
  assumes "1 / 2 ^ 1022 \<le> x"
  shows "x * (1 - 1 / 2 ^ 53) \<le> double x"
proof -
  define q where "q = x / 2 ^ 53"
  have "\<bar>double x - x\<bar> \<le> q" unfolding q_def by (rule double_relative [OF assms])
  moreover have "x * (1 - 1 / 2 ^ 53) = x - q" by (simp add: q_def algebra_simps)
  ultimately show ?thesis by linarith
qed

lemma double_upper:
  assumes "1 / 2 ^ 1022 \<le> x"
  shows "double x \<le> x * (1 + 1 / 2 ^ 53)"
proof -
  define q where "q = x / 2 ^ 53"
  have "\<bar>double x - x\<bar> \<le> q" unfolding q_def by (rule double_relative [OF assms])
  moreover have "x * (1 + 1 / 2 ^ 53) = x + q" by (simp add: q_def algebra_simps)
  ultimately show ?thesis by linarith
qed

lemma forceStop_step_margin:
  assumes sr: "1 \<le> sr" "sr \<le> 2 ^ 20" and bs: "0 < bs" "bs \<le> 2 ^ 20"
  shows "(10 * real bs / sr) * (1 - 1 / 2 ^ 35) \<le> forceStop_step sr bs - 1 / 2 ^ 53"
proof -
  define c :: real where "c = 3602879701896397 / 2 ^ 55"
  define u :: real where "u = 1 / 2 ^ 53"
  define t1 where "t1 = double (c * sr)"
  define t2 where "t2 = double (1 / t1)"
  define d where "d = double (t2 * real bs)"
  have d: "forceStop_step sr bs = d"
    by (simp add: forceStop_step_def d_def t2_def t1_def forceStopReleaseTime_value c_def)
  have c: "0 < c" "1 / 2 ^ 4 \<le> c" "c \<le> 1 / 2 ^ 3" by (simp_all add: c_def)
  have u: "0 < u" "u < 1" by (simp_all add: u_def)
  have rb: "1 \<le> real bs" "real bs \<le> 2 ^ 20"
  proof -
    from bs(1) have "1 \<le> bs" by simp
    then have "real 1 \<le> real bs" by (simp only: of_nat_le_iff)
    then show "1 \<le> real bs" by simp
    from bs(2) have "real bs \<le> real (2 ^ 20)" by (simp only: of_nat_le_iff)
    then show "real bs \<le> 2 ^ 20" by (simp only: of_nat_power of_nat_numeral)
  qed
  have x1: "1 / 2 ^ 4 \<le> c * sr" "c * sr \<le> 2 ^ 17"
  proof -
    have "1 / 2 ^ 4 * 1 \<le> c * sr" using c sr by (intro mult_mono) simp_all
    then show "1 / 2 ^ 4 \<le> c * sr" by simp
    have "c * sr \<le> 1 / 2 ^ 3 * 2 ^ 20" using c sr by (intro mult_mono) simp_all
    then show "c * sr \<le> 2 ^ 17" by simp
  qed
  have n1: "(1 :: real) / 2 ^ 1022 \<le> c * sr"
    using x1(1) by (rule order_trans [rotated]) simp
  have t1_lo: "c * sr * (1 - u) \<le> t1" and t1_up: "t1 \<le> c * sr * (1 + u)"
    unfolding t1_def u_def using double_lower [OF n1] double_upper [OF n1] by simp_all
  have t1_pos: "0 < t1"
  proof -
    have "0 < c * sr * (1 - u)" using x1(1) u by simp
    with t1_lo show ?thesis by linarith
  qed
  have t1_le: "t1 \<le> 2 ^ 18"
  proof -
    have "c * sr * (1 + u) \<le> 2 ^ 17 * 2" using x1 u by (intro mult_mono) simp_all
    with t1_up show ?thesis by simp
  qed
  have x2: "1 / (c * sr * (1 + u)) \<le> 1 / t1"
  proof -
    have p: "0 < c * sr * (1 + u)" using t1_pos t1_up by linarith
    have "0 < c * sr * (1 + u) * t1" using p t1_pos by (rule mult_pos_pos)
    with t1_up show ?thesis by (intro divide_left_mono) simp_all
  qed
  have x2_lo: "1 / 2 ^ 18 \<le> 1 / t1"
    using t1_le t1_pos by (intro divide_left_mono) simp_all
  have n2: "(1 :: real) / 2 ^ 1022 \<le> 1 / t1"
    using x2_lo by (rule order_trans [rotated]) simp
  have t2_lo: "1 / t1 * (1 - u) \<le> t2"
    unfolding t2_def u_def using double_lower [OF n2] by simp
  have t2_ge: "1 / 2 ^ 19 \<le> t2"
  proof -
    have h: "(1 :: real) / 2 \<le> 1 - u" by (simp add: u_def)
    have "(1 :: real) / 2 ^ 19 = 1 / 2 ^ 18 * (1 / 2)" by simp
    also have "\<dots> \<le> 1 / t1 * (1 - u)"
      using x2_lo h t1_pos by (intro mult_mono) (simp_all add: less_imp_le)
    also note t2_lo
    finally show ?thesis .
  qed
  have x3: "1 / 2 ^ 19 \<le> t2 * real bs"
  proof -
    have "0 \<le> t2" using t2_ge by (rule order_trans [rotated]) simp
    then have "1 / 2 ^ 19 * 1 \<le> t2 * real bs" using t2_ge rb by (intro mult_mono) simp_all
    then show ?thesis by simp
  qed
  have n3: "(1 :: real) / 2 ^ 1022 \<le> t2 * real bs"
    using x3 by (rule order_trans [rotated]) simp
  have d_lo: "t2 * real bs * (1 - u) \<le> d"
    unfolding d_def u_def using double_lower [OF n3] by simp
  define K where "K = (1 - u) * (1 - u) / (c * (1 + u))"
  have K: "10 - 6 / 2 ^ 35 \<le> K"
    unfolding K_def c_def u_def by (simp add: field_simps)
  have "real bs / sr * K = 1 / (c * sr * (1 + u)) * (1 - u) * real bs * (1 - u)"
    using sr by (simp add: K_def field_simps)
  also have "\<dots> \<le> 1 / t1 * (1 - u) * real bs * (1 - u)"
    using x2 u by (intro mult_right_mono) simp_all
  also have "\<dots> \<le> t2 * real bs * (1 - u)"
    using t2_lo u by (intro mult_right_mono) simp_all
  also have "\<dots> \<le> d" by (rule d_lo)
  finally have main: "real bs / sr * K \<le> d" .
  have ratio: "1 / 2 ^ 20 \<le> real bs / sr"
  proof -
    have "1 / 2 ^ 20 \<le> 1 / sr" using sr by (intro divide_left_mono) simp_all
    also have "\<dots> \<le> real bs / sr" using rb sr by (intro divide_right_mono) simp_all
    finally show ?thesis .
  qed
  have eta: "1 / 2 ^ 53 \<le> real bs / sr * (1 / 2 ^ 33)"
  proof -
    have "1 / 2 ^ 20 * (1 / 2 ^ 33) \<le> real bs / sr * (1 / 2 ^ 33)"
      using ratio by (intro mult_right_mono) simp_all
    then show ?thesis by simp
  qed
  have rpos: "0 \<le> real bs / sr" using sr by simp
  have "real bs / sr * (10 - 6 / 2 ^ 35) \<le> real bs / sr * K"
    using K rpos by (rule mult_left_mono)
  with main eta have "real bs / sr * (10 - 6 / 2 ^ 35) - real bs / sr * (1 / 2 ^ 33)
                        \<le> d - 1 / 2 ^ 53"
    by linarith
  moreover have "real bs / sr * (10 - 6 / 2 ^ 35) - real bs / sr * (1 / 2 ^ 33)
                   = (10 * real bs / sr) * (1 - 1 / 2 ^ 35)"
    by (simp add: algebra_simps)
  ultimately show ?thesis by (simp only: d)
qed


text \<open>One rounded subtraction of the ramp, while the result is positive.\<close>

lemma ramp_step:
  assumes "a \<le> 1" and "1 / 2 ^ 53 < d" and "0 < double (a - d)"
  shows "double (a - d) \<le> a - (d - 1 / 2 ^ 53)" and "double (a - d) < a" and "double (a - d) \<le> 1"
proof -
  define h :: real where "h = 1 / 2 ^ 53"
  have pos: "0 < a - d"
  proof (rule ccontr)
    assume "\<not> 0 < a - d"
    then have "double (a - d) \<le> 0" by (intro double_sign) simp
    with assms(3) show False by simp
  qed
  have hd: "h < d" using assms(2) by (simp only: h_def)
  have "a - d \<le> 1" using assms(1) hd by (simp add: h_def)
  from double_unit [OF pos this] have "\<bar>double (a - d) - (a - d)\<bar> \<le> h"
    by (simp only: h_def)
  then have 1: "double (a - d) \<le> a - (d - h)" by linarith
  then show "double (a - d) \<le> a - (d - 1 / 2 ^ 53)" by (simp only: h_def)
  from 1 hd show "double (a - d) < a" by linarith
  then show "double (a - d) \<le> 1" using assms(1) by linarith
qed

lemma ramp_stopped:
  "double (a - d) \<le> 0 \<Longrightarrow> k < Suc n \<Longrightarrow> forceStop_ramp d (Suc n) a ! k = 0"
  by (simp del: replicate_Suc)

lemma ramp_going:
  "\<not> double (a - d) \<le> 0 \<Longrightarrow>
     forceStop_ramp d (Suc n) a = double (a - d) # forceStop_ramp d n (double (a - d))"
  by simp

lemma ramp_length: "length (forceStop_ramp d n a) = n"
  by (induction n arbitrary: a) simp_all

lemma ramp_nonneg: "k < n \<Longrightarrow> 0 \<le> forceStop_ramp d n a ! k"
proof (induction n arbitrary: a k)
  case 0
  then show ?case by simp
next
  case (Suc n)
  show ?case
  proof (cases "double (a - d) \<le> 0")
    case True
    from ramp_stopped [OF True Suc.prems] show ?thesis by (simp only: order_refl)
  next
    case False
    with Suc show ?thesis by (cases k) simp_all
  qed
qed

lemma ramp_first:
  assumes "a \<le> 1" and "1 / 2 ^ 53 < d"
  shows "forceStop_ramp d (Suc n) a ! 0 \<le> max 0 a \<and> (0 < a \<longrightarrow> forceStop_ramp d (Suc n) a ! 0 < a)"
proof (cases "double (a - d) \<le> 0")
  case True
  have "forceStop_ramp d (Suc n) a ! 0 = 0" using True by (rule ramp_stopped) simp
  then show ?thesis by simp
next
  case False
  then have "0 < double (a - d)" by simp
  from ramp_step(2) [OF assms this] False show ?thesis by simp
qed

lemma ramp_upper:
  assumes "a \<le> 1" and "1 / 2 ^ 53 < d" and "k < n"
  shows "forceStop_ramp d n a ! k \<le> max 0 (a - real (Suc k) * (d - 1 / 2 ^ 53))"
  using assms
proof (induction n arbitrary: a k)
  case 0
  then show ?case by simp
next
  case (Suc n)
  define m where "m = d - 1 / 2 ^ 53"
  show ?case
  proof (cases "double (a - d) \<le> 0")
    case True
    from ramp_stopped [OF True Suc.prems(3)] show ?thesis by (simp only: max.cobounded1)
  next
    case False
    then have p: "0 < double (a - d)" by simp
    note s = ramp_step [OF Suc.prems(1,2) p]
    show ?thesis
    proof (cases k)
      case 0
      with False s(1) show ?thesis by simp
    next
      case (Suc j)
      with Suc.prems have j: "j < n" by simp
      from Suc.IH [OF s(3) Suc.prems(2) j]
      have "forceStop_ramp d n (double (a - d)) ! j \<le> max 0 (double (a - d) - real (Suc j) * m)"
        by (simp only: m_def)
      also have "\<dots> \<le> max 0 (a - real (Suc (Suc j)) * m)"
      proof -
        have "double (a - d) - real (Suc j) * m \<le> a - m - real (Suc j) * m"
          using s(1) by (simp add: m_def)
        also have "\<dots> = a - real (Suc (Suc j)) * m" by (simp add: algebra_simps)
        finally show ?thesis by (rule max.mono [OF order_refl])
      qed
      finally show ?thesis using False Suc by (simp add: m_def del: of_nat_Suc)
    qed
  qed
qed

lemma ramp_mono:
  assumes "a \<le> 1" and "1 / 2 ^ 53 < d" and "Suc k < n"
  shows "forceStop_ramp d n a ! Suc k \<le> forceStop_ramp d n a ! k
       \<and> (0 < forceStop_ramp d n a ! k \<longrightarrow> forceStop_ramp d n a ! Suc k < forceStop_ramp d n a ! k)"
  using assms
proof (induction n arbitrary: a k)
  case 0
  then show ?case by simp
next
  case (Suc n)
  show ?case
  proof (cases "double (a - d) \<le> 0")
    case True
    from Suc.prems(3) have "k < Suc n" by simp
    from ramp_stopped [OF True Suc.prems(3)] ramp_stopped [OF True this]
    show ?thesis by (simp only: order_refl less_irrefl simp_thms)
  next
    case False
    then have p: "0 < double (a - d)" by simp
    note s = ramp_step [OF Suc.prems(1,2) p]
    show ?thesis
    proof (cases k)
      case 0
      from Suc.prems(3) 0 obtain n' where n': "n = Suc n'" by (cases n) simp_all
      from ramp_first [OF s(3) Suc.prems(2), of n'] p
      have "forceStop_ramp d n (double (a - d)) ! 0 < double (a - d)"
        unfolding n' by blast
      with False 0 show ?thesis by simp
    next
      case (Suc j)
      with Suc.prems have j: "Suc j < n" by simp
      from Suc.IH [OF s(3) Suc.prems(2) j] False Suc show ?thesis by simp
    qed
  qed
qed

lemma ramp_stay:
  assumes "k \<le> j" and "j < n" and "forceStop_ramp d n a ! k = 0"
  shows "forceStop_ramp d n a ! j = 0"
  using assms
proof (induction n arbitrary: a k j)
  case 0
  then show ?case by simp
next
  case (Suc n)
  show ?case
  proof (cases "double (a - d) \<le> 0")
    case True
    from ramp_stopped [OF True Suc.prems(2)] show ?thesis .
  next
    case False
    show ?thesis
    proof (cases k)
      case 0
      with False Suc.prems(3) show ?thesis by simp
    next
      case k: (Suc k')
      with Suc.prems(1) obtain j' where j': "j = Suc j'" by (cases j) simp_all
      from Suc.prems k j' have "k' \<le> j'" "j' < n"
        "forceStop_ramp d n (double (a - d)) ! k' = 0"
        using False by simp_all
      from Suc.IH [OF this] False j' show ?thesis by simp
    qed
  qed
qed

text \<open>One call in the forced-stop phase.\<close>

lemma getAmplitude_forceStop:
  assumes "phase e = phase_forceStop"
    and "v = double (lastAmplitude e - forceStop_step (env_sampleRate e) bs)"
  shows "\<exists>e'. getAmplitude (Some g) bs e = Inr (if v \<le> 0 then 0 else v, e')
         \<and> env_sampleRate e' = env_sampleRate e
         \<and> lastAmplitude e' = (if v \<le> 0 then 0 else v)
         \<and> phase e' = (if v \<le> 0 then phase_stopped else phase_forceStop)"
  using assms
  by (simp add: getAmplitude_def calculateAmplitude_def Let_def set_phase_def forceStop_step_def)

lemma getAmplitudes_forceStop:
  assumes "phase e = phase_forceStop"
    and "d = forceStop_step (env_sampleRate e) bs"
  shows "\<exists>e'. getAmplitudes (Some g) bs n e = Inr (forceStop_ramp d n (lastAmplitude e), e')
         \<and> (0 < n \<longrightarrow> phase e' =
               (if forceStop_ramp d n (lastAmplitude e) ! (n - 1) = 0
                then phase_stopped else phase_forceStop))"
  using assms
proof (induction n arbitrary: e)
  case 0
  then show ?case by simp
next
  case (Suc n)
  define a where "a = lastAmplitude e"
  define v where "v = double (a - d)"
  from getAmplitude_forceStop [OF Suc.prems(1), of v bs g]
  obtain e1 where e1: "getAmplitude (Some g) bs e = Inr (if v \<le> 0 then 0 else v, e1)"
    "env_sampleRate e1 = env_sampleRate e" "lastAmplitude e1 = (if v \<le> 0 then 0 else v)"
    "phase e1 = (if v \<le> 0 then phase_stopped else phase_forceStop)"
    unfolding v_def a_def Suc.prems(2) by blast
  show ?case
  proof (cases "v \<le> 0")
    case True
    with e1 have "phase e1 = phase_stopped" by simp
    from getAmplitudes_stopped [OF this, of g bs n] obtain e2
      where e2: "getAmplitudes (Some g) bs n e1 = Inr (replicate n 0, e2)" "phase e2 = phase_stopped"
      by blast
    have r: "forceStop_ramp d (Suc n) a = 0 # replicate n 0"
      using True by (simp add: v_def)
    have z: "forceStop_ramp d (Suc n) a ! n = 0"
      using True unfolding v_def by (rule ramp_stopped) simp
    have "getAmplitudes (Some g) bs (Suc n) e = Inr (forceStop_ramp d (Suc n) a, e2)"
      unfolding r using e1 e2 True by simp
    with z e2(2) show ?thesis
      unfolding a_def [symmetric] by (simp del: forceStop_ramp.simps)
  next
    case False
    with e1 have p1: "phase e1 = phase_forceStop" and l1: "lastAmplitude e1 = v"
      by simp_all
    have d1: "d = forceStop_step (env_sampleRate e1) bs"
      using Suc.prems(2) e1(2) by simp
    from Suc.IH [OF p1 d1] obtain e2
      where e2: "getAmplitudes (Some g) bs n e1 = Inr (forceStop_ramp d n v, e2)"
        "0 < n \<longrightarrow> phase e2 =
           (if forceStop_ramp d n v ! (n - 1) = 0 then phase_stopped else phase_forceStop)"
      unfolding l1 by blast
    have r: "forceStop_ramp d (Suc n) a = v # forceStop_ramp d n v"
      using False by (simp add: v_def)
    show ?thesis
    proof (cases n)
      case 0
      with e1 e2 False p1 show ?thesis
        unfolding a_def [symmetric] r by simp
    next
      case (Suc m)
      with e1 e2 False show ?thesis
        unfolding a_def [symmetric] r by simp
    qed
  qed
qed


lemma forceStop_steps_enough:
  assumes sr: "1 \<le> sr" "sr \<le> 2 ^ 20" and bs: "0 < bs" "bs \<le> 2 ^ 20"
    and N: "N = nat \<lceil>(1 / 10) * sr / real bs\<rceil>"
  shows "1 / 2 ^ 53 < forceStop_step sr bs"
    and "1 \<le> real (Suc N) * (forceStop_step sr bs - 1 / 2 ^ 53)"
proof -
  define m where "m = forceStop_step sr bs - 1 / 2 ^ 53"
  define dl where "dl = 10 * real bs / sr"
  have rb: "1 \<le> real bs"
  proof -
    from bs(1) have "1 \<le> bs" by simp
    then have "real 1 \<le> real bs" by (simp only: of_nat_le_iff)
    then show ?thesis by simp
  qed
  have dl: "10 / 2 ^ 20 \<le> dl"
  proof -
    have "10 / 2 ^ 20 \<le> 10 / sr" using sr by (intro divide_left_mono) simp_all
    also have "\<dots> = 10 * 1 / sr" by simp
    also have "\<dots> \<le> 10 * real bs / sr" using rb sr by (intro divide_right_mono mult_left_mono) simp_all
    finally show ?thesis by (simp only: dl_def)
  qed
  then have dl0: "0 < dl" by (rule less_le_trans [rotated]) simp
  have margin: "dl * (1 - 1 / 2 ^ 35) \<le> m"
    unfolding dl_def m_def by (rule forceStop_step_margin [OF sr bs])
  have "0 < dl * (1 - 1 / 2 ^ 35)" using dl0 by simp
  with margin have m0: "0 < m" by linarith
  then show "1 / 2 ^ 53 < forceStop_step sr bs" by (simp add: m_def)
  have "(1 / 10) * sr / real bs \<le> real_of_int \<lceil>(1 / 10) * sr / real bs\<rceil>" by linarith
  also have "\<dots> \<le> real N" unfolding N by simp
  finally have "(1 / 10) * sr / real bs \<le> real N" .
  then have "(1 / 10) * sr / real bs * dl \<le> real N * dl"
    using dl0 by (intro mult_right_mono) simp_all
  moreover have "(1 / 10) * sr / real bs * dl = 1"
    using sr rb by (simp add: dl_def)
  ultimately have "1 \<le> real N * dl" by (simp only:)
  then have "1 + 10 / 2 ^ 20 \<le> real N * dl + dl" using dl by linarith
  also have "\<dots> = real (Suc N) * dl" by (simp add: algebra_simps)
  finally have step: "1 + 10 / 2 ^ 20 \<le> real (Suc N) * dl" .
  have "(1 :: real) \<le> (1 + 10 / 2 ^ 20) * (1 - 1 / 2 ^ 35)" by simp
  also have "\<dots> \<le> real (Suc N) * dl * (1 - 1 / 2 ^ 35)"
    using step by (intro mult_right_mono) simp_all
  also have "\<dots> = real (Suc N) * (dl * (1 - 1 / 2 ^ 35))" by (simp only: mult.assoc)
  also have "\<dots> \<le> real (Suc N) * m"
    using margin by (intro mult_left_mono) simp_all
  finally show "1 \<le> real (Suc N) * (forceStop_step sr bs - 1 / 2 ^ 53)"
    by (simp only: m_def)
qed


text \<open>
  C4 (as amended): where the ambient \<open>sampleRate\<close> is defined, for an envelope in any
  phase with last amplitude at most 1, a sample rate from 1 to \<open>2 ^ 20\<close> and a buffer
  size from 1 to \<open>2 ^ 20\<close>: after \<open>forceStop\<close>, any number \<open>n\<close> of successive
  \<open>getAmplitude\<close> calls return; each amplitude is at most the one before and smaller
  while that one is positive; from call number \<open>\<lceil>0.1 * sampleRate / bufferSize\<rceil> + 1\<close>
  on the amplitude is exactly 0; a 0 is followed by 0 only; and the phase is stopped
  exactly when the latest amplitude is 0, so after that many calls at the latest.
\<close>

theorem forceStop_reaches_zero:
  assumes sr: "1 \<le> env_sampleRate e" "env_sampleRate e \<le> 2 ^ 20"
    and bs: "0 < bufferSize" "bufferSize \<le> 2 ^ 20"
    and amp: "lastAmplitude e \<le> 1"
  shows "\<exists>vs e'.
           getAmplitudes (Some g) bufferSize n (env_forceStop e) = Inr (vs, e')
         \<and> length vs = n
         \<and> (0 < n \<and> 0 \<le> lastAmplitude e \<longrightarrow> vs ! 0 \<le> lastAmplitude e)
         \<and> (0 < n \<and> 0 < lastAmplitude e \<longrightarrow> vs ! 0 < lastAmplitude e)
         \<and> (\<forall>k. Suc k < n \<longrightarrow> vs ! Suc k \<le> vs ! k \<and> (0 < vs ! k \<longrightarrow> vs ! Suc k < vs ! k))
         \<and> (\<forall>k. k < n \<and> nat \<lceil>(1 / 10) * env_sampleRate e / real bufferSize\<rceil> + 1 \<le> Suc k
                \<longrightarrow> vs ! k = 0)
         \<and> (\<forall>k j. k \<le> j \<and> j < n \<and> vs ! k = 0 \<longrightarrow> vs ! j = 0)
         \<and> (0 < n \<longrightarrow> (phase e' = phase_stopped \<longleftrightarrow> vs ! (n - 1) = 0))
         \<and> (nat \<lceil>(1 / 10) * env_sampleRate e / real bufferSize\<rceil> + 1 \<le> n
              \<longrightarrow> phase e' = phase_stopped)"
proof -
  define e0 where "e0 = env_forceStop e"
  define a where "a = lastAmplitude e"
  define d where "d = forceStop_step (env_sampleRate e) bufferSize"
  define N where "N = nat \<lceil>(1 / 10) * env_sampleRate e / real bufferSize\<rceil>"
  define vs where "vs = forceStop_ramp d n a"
  have e0: "phase e0 = phase_forceStop" "lastAmplitude e0 = a" "env_sampleRate e0 = env_sampleRate e"
    by (simp_all add: e0_def a_def env_forceStop_def set_phase_def)
  have d0: "d = forceStop_step (env_sampleRate e0) bufferSize"
    by (simp add: d_def e0)
  note en = forceStop_steps_enough [OF sr bs N_def]
  have dh: "1 / 2 ^ 53 < d" unfolding d_def by (rule en(1))
  have enough: "1 \<le> real (Suc N) * (d - 1 / 2 ^ 53)" unfolding d_def by (rule en(2))
  have a1: "a \<le> 1" using amp by (simp add: a_def)
  from getAmplitudes_forceStop [OF e0(1) d0, of g n] obtain e'
    where run: "getAmplitudes (Some g) bufferSize n e0 = Inr (vs, e')"
      and ph: "0 < n \<longrightarrow> phase e' = (if vs ! (n - 1) = 0 then phase_stopped else phase_forceStop)"
    unfolding e0(2) vs_def by blast
  have len: "length vs = n" by (simp add: vs_def ramp_length)
  have within: "vs ! k = 0" if "k < n" "N + 1 \<le> Suc k" for k
  proof -
    have "real (Suc N) * (d - 1 / 2 ^ 53) \<le> real (Suc k) * (d - 1 / 2 ^ 53)"
      using that(2) dh by (intro mult_right_mono) simp_all
    with enough a1 have "a - real (Suc k) * (d - 1 / 2 ^ 53) \<le> 0" by linarith
    then have "max 0 (a - real (Suc k) * (d - 1 / 2 ^ 53)) = 0" by (simp only: max_def) simp
    with ramp_upper [OF a1 dh that(1)] have "vs ! k \<le> 0" by (simp only: vs_def)
    moreover have "0 \<le> vs ! k" unfolding vs_def using that(1) by (rule ramp_nonneg)
    ultimately show ?thesis by simp
  qed
  have first: "vs ! 0 \<le> max 0 a \<and> (0 < a \<longrightarrow> vs ! 0 < a)" if "0 < n"
  proof -
    from that obtain n' where n': "n = Suc n'" by (cases n) simp_all
    show ?thesis unfolding vs_def n' by (rule ramp_first [OF a1 dh])
  qed
  show ?thesis
  proof (intro exI conjI allI impI)
    show "getAmplitudes (Some g) bufferSize n (env_forceStop e) = Inr (vs, e')"
      using run by (simp only: e0_def)
    show "length vs = n" by (rule len)
    show "vs ! 0 \<le> lastAmplitude e" if "0 < n \<and> 0 \<le> lastAmplitude e"
      using that first by (simp add: a_def max_def split: if_splits)
    show "vs ! 0 < lastAmplitude e" if "0 < n \<and> 0 < lastAmplitude e"
      using that first by (simp add: a_def)
    show "vs ! Suc k \<le> vs ! k" if "Suc k < n" for k
      unfolding vs_def using ramp_mono [OF a1 dh that] by (rule conjunct1)
    show "vs ! Suc k < vs ! k" if "Suc k < n" "0 < vs ! k" for k
      using ramp_mono [OF a1 dh that(1)] that(2) unfolding vs_def by blast
    show "vs ! k = 0"
      if "k < n \<and> nat \<lceil>(1 / 10) * env_sampleRate e / real bufferSize\<rceil> + 1 \<le> Suc k" for k
      using that within [of k] by (simp only: N_def)
    show "vs ! j = 0" if "k \<le> j \<and> j < n \<and> vs ! k = 0" for k j
      using that ramp_stay [of k j n d a] unfolding vs_def by blast
    show "phase e' = phase_stopped \<longleftrightarrow> vs ! (n - 1) = 0" if "0 < n"
      using that ph by simp
    show "phase e' = phase_stopped"
      if "nat \<lceil>(1 / 10) * env_sampleRate e / real bufferSize\<rceil> + 1 \<le> n"
    proof -
      from that have n: "0 < n" "n - 1 < n" "N + 1 \<le> Suc (n - 1)" by (simp_all add: N_def)
      from within [OF n(2,3)] ph n(1) show ?thesis by simp
    qed
  qed
qed

lemma example_full_fields:
  "phase example_full_envelope = phase_hold"
  "lastAmplitude example_full_envelope = 1"
  "env_sampleRate example_full_envelope = 48000"
  "phase (env_forceStop example_full_envelope) = phase_forceStop"
  "lastAmplitude (env_forceStop example_full_envelope) = 1"
  "env_sampleRate (env_forceStop example_full_envelope) = 48000"
  by (simp_all add: example_full_envelope_def new_AmplitudeEnvelope_def env_forceStop_def
        set_phase_def)

lemma example_full_step:
  "forceStop_step 48000 480 = 3602879701896397 / 2 ^ 55"
  by (simp add: forceStop_step_def forceStopReleaseTime_value double_def binade.simps
        round_ties_even_def Let_def)

lemma example_full_ramp:
  "forceStop_ramp (3602879701896397 / 2 ^ 55) 10 1 ! 9 = 5 / 2 ^ 55"
  "forceStop_ramp (3602879701896397 / 2 ^ 55) 11 1 ! 9 = 5 / 2 ^ 55"
  by (simp_all add: eval_nat_numeral double_def binade.simps round_ties_even_def Let_def)

lemma example_full_bounds:
  "nat \<lceil>(1 / 10) * (48000 :: real) / real 480\<rceil> = 10"
  "nat \<lceil>double (double (forceStopReleaseTime * 48000) / real 480)\<rceil> = 10"
  by (simp_all add: forceStopReleaseTime_value double_def binade.simps round_ties_even_def
        Let_def)

lemma example_full_run:
  "\<exists>e'. getAmplitudes (Some 48000) 480 n (env_forceStop example_full_envelope)
           = Inr (forceStop_ramp (3602879701896397 / 2 ^ 55) n 1, e')
       \<and> (0 < n \<longrightarrow> phase e' =
             (if forceStop_ramp (3602879701896397 / 2 ^ 55) n 1 ! (n - 1) = 0
              then phase_stopped else phase_forceStop))"
proof -
  have d: "3602879701896397 / 2 ^ 55
             = forceStop_step (env_sampleRate (env_forceStop example_full_envelope)) 480"
    by (simp only: example_full_fields example_full_step)
  from getAmplitudes_forceStop [OF example_full_fields(4) d, of 48000 n]
  show ?thesis by (simp only: example_full_fields)
qed

text \<open>
  The claim C4 as stated, with the bound \<open>\<lceil>0.1 * sampleRate / bufferSize\<rceil>\<close>, fails: at
  sample rate 48000 and buffer size 480 the bound is 10, computed exactly or in binary64,
  and from amplitude 1 the tenth amplitude is \<open>5 / 2 ^ 55\<close> with the envelope still in the
  forced-stop phase, because ten rounded subtractions of the binary64 value nearest to
  0.1 leave a residue.
\<close>

theorem forceStop_late_counterexample:
  "phase example_full_envelope \<noteq> phase_stopped
   \<and> lastAmplitude example_full_envelope \<le> 1
   \<and> nat \<lceil>(1 / 10) * env_sampleRate example_full_envelope / real 480\<rceil> = 10
   \<and> nat \<lceil>double (double (forceStopReleaseTime * env_sampleRate example_full_envelope) / real 480)\<rceil> = 10
   \<and> map_sum id (\<lambda>r. (fst r ! 9, phase (snd r)))
         (getAmplitudes (Some 48000) 480 10 (env_forceStop example_full_envelope))
       = Inr (5 / 2 ^ 55, phase_forceStop)"
proof -
  from example_full_run [of 10] obtain e'
    where run: "getAmplitudes (Some 48000) 480 10 (env_forceStop example_full_envelope)
                  = Inr (forceStop_ramp (3602879701896397 / 2 ^ 55) 10 1, e')"
      and ph: "phase e' = (if forceStop_ramp (3602879701896397 / 2 ^ 55) 10 1 ! (10 - 1) = 0
                           then phase_stopped else phase_forceStop)"
    by auto
  have nine: "(10 :: nat) - 1 = 9" by simp
  have p: "phase e' = phase_forceStop"
    using ph unfolding nine example_full_ramp by simp
  have r: "map_sum id (\<lambda>r. (fst r ! 9, phase (snd r)))
         (getAmplitudes (Some 48000) 480 10 (env_forceStop example_full_envelope))
       = Inr (5 / 2 ^ 55, phase_forceStop)"
    unfolding run by (simp only: map_sum.simps fst_conv snd_conv example_full_ramp p)
  have a: "phase example_full_envelope \<noteq> phase_stopped"
    "lastAmplitude example_full_envelope \<le> 1"
    by (simp_all add: example_full_fields)
  have b: "nat \<lceil>(1 / 10) * env_sampleRate example_full_envelope / real 480\<rceil> = 10"
    "nat \<lceil>double (double (forceStopReleaseTime * env_sampleRate example_full_envelope) / real 480)\<rceil> = 10"
    unfolding example_full_fields by (rule example_full_bounds)+
  from a b r show ?thesis by (intro conjI)
qed

theorem forceStop_reaches_zero_witness:
  "1 \<le> env_sampleRate example_full_envelope
   \<and> env_sampleRate example_full_envelope \<le> 2 ^ 20
   \<and> (0 :: nat) < 480 \<and> (480 :: nat) \<le> 2 ^ 20
   \<and> lastAmplitude example_full_envelope \<le> 1
   \<and> nat \<lceil>(1 / 10) * env_sampleRate example_full_envelope / real 480\<rceil> + 1 = 11
   \<and> map_sum id (\<lambda>r. (length (fst r), fst r ! 9, fst r ! 10, phase (snd r)))
         (getAmplitudes (Some 48000) 480 11 (env_forceStop example_full_envelope))
       = Inr (11, 5 / 2 ^ 55, 0, phase_stopped)"
proof -
  have sr: "1 \<le> env_sampleRate example_full_envelope"
    "env_sampleRate example_full_envelope \<le> 2 ^ 20"
    and amp: "lastAmplitude example_full_envelope \<le> 1"
    by (simp_all add: example_full_fields)
  have bs: "(0 :: nat) < 480" "(480 :: nat) \<le> 2 ^ 20" by simp_all
  have N: "nat \<lceil>(1 / 10) * env_sampleRate example_full_envelope / real 480\<rceil> + 1 = 11"
    unfolding example_full_fields example_full_bounds by simp
  from forceStop_reaches_zero [OF sr bs amp, of 48000 11] obtain vs e'
    where run: "getAmplitudes (Some 48000) 480 11 (env_forceStop example_full_envelope) = Inr (vs, e')"
      and len: "length vs = 11"
      and zero: "\<forall>k. k < 11 \<and> nat \<lceil>(1 / 10) * env_sampleRate example_full_envelope / real 480\<rceil> + 1 \<le> Suc k
                \<longrightarrow> vs ! k = 0"
      and st: "nat \<lceil>(1 / 10) * env_sampleRate example_full_envelope / real 480\<rceil> + 1 \<le> 11
              \<longrightarrow> phase e' = phase_stopped"
    apply (elim exE conjE)
    apply (rule that; assumption)
    done
  from example_full_run [of 11] run
  have vs: "vs = forceStop_ramp (3602879701896397 / 2 ^ 55) 11 1" by auto
  have v9: "vs ! 9 = 5 / 2 ^ 55" unfolding vs by (rule example_full_ramp)
  have v10: "vs ! 10 = 0" using zero [rule_format, of 10] unfolding N by simp
  have p: "phase e' = phase_stopped" using st unfolding N by simp
  have r: "map_sum id (\<lambda>r. (length (fst r), fst r ! 9, fst r ! 10, phase (snd r)))
         (getAmplitudes (Some 48000) 480 11 (env_forceStop example_full_envelope))
       = Inr (11, 5 / 2 ^ 55, 0, phase_stopped)"
    unfolding run by (simp only: map_sum.simps fst_conv snd_conv len v9 v10 p)
  from sr bs amp N r show ?thesis by (intro conjI)
qed

section \<open>Looping of the read position\<close>


















section \<open>Reverb\<close>










text \<open>The constructor gives such a state at any sample rate from 1000 / 19 up.\<close>

lemma new_ReverbProcessor_wf:
  assumes "1000 \<le> 19 * sr"
  shows "reverb_wf (new_ReverbProcessor sr)"
proof -
  have pos: "0 < \<lfloor>ms * sr / 1000\<rfloor>" if "19 \<le> ms" for ms :: real
  proof -
    have "0 \<le> sr" using assms by simp
    then have "19 * sr \<le> ms * sr" using that by (intro mult_right_mono) simp_all
    with assms have "1000 \<le> ms * sr" by linarith
    then have "1 \<le> ms * sr / 1000" by simp
    then show ?thesis by linarith
  qed
  have "\<forall>d < 8. (0 :: nat) < nat \<lfloor>([19, 29, 41, 53, 67, 79, 97, 113 :: real] ! d) * sr / 1000\<rfloor>"
    using pos by (auto simp: less_Suc_eq numeral_eq_Suc)
  moreover have "0 \<le> sr" using assms by simp
  ultimately show ?thesis
    using pos
    by (simp add: reverb_wf_def new_ReverbProcessor_def Let_def list_all_iff)
qed

section \<open>Offline rendering\<close>

lemma osc_process_unbound:
  "osc_playing osc \<Longrightarrow> osc_process None outs osc = Inl ReferenceError"
  by (simp add: osc_process_def getAmplitude_def Let_def split: prod.splits)

lemma osc_process_bound:
  "\<exists>r. osc_process (Some g) outs osc = Inr r"
proof (cases "osc_playing osc")
  case False
  then show ?thesis by (simp add: osc_process_def)
next
  case True
  obtain v e1 where c: "calculateAmplitude (length (fst outs)) (envelope osc) = (v, e1)"
    by (cases "calculateAmplitude (length (fst outs)) (envelope osc)")
  obtain w l1 where l: "getValue (length (fst outs)) (pitchLFO osc) = (w, l1)"
    by (cases "getValue (length (fst outs)) (pitchLFO osc)")
  from True c l show ?thesis
    by (simp add: osc_process_def getAmplitude_def Let_def)
qed

lemma process_voices_bound: "\<exists>r. process_voices (Some g) st l dry = Inr r"
proof (induction l arbitrary: dry)
  case Nil
  then show ?case by simp
next
  case (Cons osc rest)
  define osc1 where "osc1 = osc\<lparr>osc_speed := 2 powr (ch_pitchBend st / 12),
                    osc_volume := ch_volume st * ch_expression st,
                    osc_pan := ch_pan st,
                    osc_modulation := ch_modulation st\<rparr>"
  obtain dry1 osc2 where a: "osc_process (Some g) dry osc1 = Inr (dry1, osc2)"
    using osc_process_bound [of g dry osc1] by (metis surj_pair)
  obtain kept dry2 where b: "process_voices (Some g) st rest dry1 = Inr (kept, dry2)"
    using Cons.IH [of dry1] by (metis surj_pair)
  show ?case by (simp add: Let_def osc1_def [symmetric] a b)
qed

lemma process_keys_bound: "\<exists>r. process_keys (Some g) ks acc = Inr r"
proof (induction ks arbitrary: acc)
  case Nil
  show ?case by (intro exI [of _ acc]) simp
next
  case (Cons k ks)
  show ?case
  proof (cases "oscillators (fst acc) k")
    case None
    with Cons.IH [of acc] show ?thesis by (simp add: Let_def)
  next
    case (Some l)
    obtain kept dry1 where a: "process_voices (Some g) (fst acc) l (snd acc) = Inr (kept, dry1)"
      using process_voices_bound [of g "fst acc" l "snd acc"] by (metis surj_pair)
    with Some Cons.IH show ?thesis by (simp add: Let_def)
  qed
qed

lemma process_channels_bound: "\<exists>r. process_channels (Some g) chs acc = Inr r"
proof (induction chs arbitrary: acc)
  case Nil
  show ?case by (intro exI [of _ acc]) simp
next
  case (Cons ch chs)
  show ?case
  proof (cases "channels (fst acc) ch")
    case None
    with Cons.IH [of acc] show ?thesis by (simp add: Let_def)
  next
    case (Some st)
    obtain st1 dry1
      where a: "process_keys (Some g) (sorted_list_of_set (dom (oscillators st))) (st, snd acc)
                  = Inr (st1, dry1)"
      using process_keys_bound [of g "sorted_list_of_set (dom (oscillators st))" "(st, snd acc)"]
      by (metis surj_pair)
    with Some Cons.IH show ?thesis by (simp add: Let_def)
  qed
qed

lemma core_process_bound: "\<exists>r. core_process (Some g) f n c = Inr r"
proof -
  define c1 where "c1 = fst (processScheduledEvents f c)"
  obtain c2 dry where a:
    "process_channels (Some g) (sorted_list_of_set (dom (channels c1)))
       (c1, (replicate n 0, replicate n 0)) = Inr (c2, dry)"
    using process_channels_bound [of g "sorted_list_of_set (dom (channels c1))"
            "(c1, (replicate n 0, replicate n 0))"]
    by (metis surj_pair)
  show ?thesis
    by (simp add: core_process_def Let_def c1_def [symmetric] a split: prod.splits)
qed

lemma example_render_synth_fields:
  "scheduledEvents (eventScheduler example_render_synth) = [scheduled_at 0 (ChannelEvent 0 (NoteOn 60 100)) 0 2]"
  "currentEvents (eventScheduler example_render_synth) = []"
  "scheduledReverbEvents (eventScheduler example_render_synth) = []"
  "channels example_render_synth = Map.empty"
  "core_sampleRate example_render_synth = 44100"
  "sampleTable example_render_synth = addSampleParameter (example_parameter 1 None) (example_range 0 0 (60, 60))
                  (addSample [0, 1, 0, - 1] 1 empty_SampleTable)"
  by (simp_all add: example_render_synth_def example_sample_events_def handleImmediateEvent_def
        example_note_events_def addEvent_def insertSorted_def insert_position.simps
        new_SynthProcessorCore_def new_SynthEventScheduler_def scheduled_at_def)

lemma example_lookup:
  "getSamples (addSampleParameter (example_parameter 1 None) (example_range 0 0 (60, 60))
                  (addSample [0, 1, 0, - 1] 1 empty_SampleTable)) 0 0 60 100
     = [example_sample None]"
  by (simp add: getSamples_def addSampleParameter_def addSample_def empty_SampleTable_def
        example_range_def push_parameter_def instrument_lookup_def velocity_matches_def
        example_sample_def example_parameter_def Let_def)

lemma noteOn_fresh_channel:
  assumes "channels c = Map.empty" and "core_getSamples ch key vel c = [s]"
  shows "channels (noteOn ch key vel c) =
           [ch \<mapsto> initialChannelState
                    \<lparr>oscillators := [key \<mapsto> [fresh_voice (core_sampleRate c) key vel s]]\<rparr>]"
proof -
  define c1 where "c1 = snd (getChannelState ch c)"
  have c1: "channels c1 = [ch \<mapsto> initialChannelState]" "core_sampleRate c1 = core_sampleRate c"
    "fst (getChannelState ch c1) = initialChannelState" "snd (getChannelState ch c1) = c1"
    using assms(1) by (simp_all add: c1_def getChannelState_def)
  have f1: "core_getSamples ch key vel c1 = [s]"
    using assms(2) by (simp add: c1_def getSamples_after_getChannelState)
  have sweep: "exclusive_sweep cls (st\<lparr>oscillators := [key \<mapsto> []]\<rparr>)
                 = st\<lparr>oscillators := [key \<mapsto> []]\<rparr>" for cls st
    by (cases cls) (auto simp: exclusive_sweep_def map_oscillators_def fun_eq_iff)
  have init: "oscillators initialChannelState = Map.empty"
    by (simp add: initialChannelState_def)
  have "noteOn_sample (core_sampleRate c) key vel s initialChannelState
          = initialChannelState
              \<lparr>oscillators := [key \<mapsto> [fresh_voice (core_sampleRate c) key vel s]]\<rparr>"
    by (simp add: noteOn_sample_def Let_def init sweep fresh_voice_def)
  then show ?thesis
    by (simp add: noteOn_def Let_def c1_def [symmetric] f1 c1 update_channel_def
          case_prod_unfold)
qed


lemma process_voices_unbound:
  "process_voices None st l dry =
     (if \<exists>osc \<in> set l. osc_playing osc then Inl ReferenceError else Inr ([], dry))"
proof (induction l arbitrary: dry)
  case Nil
  show ?case by simp
next
  case (Cons osc rest)
  define osc1 where "osc1 = osc\<lparr>osc_speed := 2 powr (ch_pitchBend st / 12),
                    osc_volume := ch_volume st * ch_expression st,
                    osc_pan := ch_pan st,
                    osc_modulation := ch_modulation st\<rparr>"
  have p: "osc_playing osc1 = osc_playing osc" by (simp add: osc1_def)
  show ?case
  proof (cases "osc_playing osc")
    case True
    with p have "osc_process None dry osc1 = Inl ReferenceError"
      by (simp add: osc_process_unbound)
    with True show ?thesis by (simp add: Let_def osc1_def [symmetric])
  next
    case False
    with p have "osc_process None dry osc1 = Inr (dry, osc1)" "\<not> osc_isPlaying osc1"
      by (simp_all add: osc_process_def osc_isPlaying_def)
    with False Cons.IH [of dry] show ?thesis
      by (simp add: Let_def osc1_def [symmetric])
  qed
qed

lemma process_keys_unbound_cases:
  "process_keys None ks acc = Inl ReferenceError \<or> (\<exists>r. process_keys None ks acc = Inr r)"
proof (induction ks arbitrary: acc)
  case Nil
  have "process_keys None [] acc = Inr acc" by simp
  then show ?case by blast
next
  case (Cons k ks)
  show ?case
  proof (cases "oscillators (fst acc) k")
    case None
    with Cons.IH [of acc] show ?thesis by (simp add: Let_def)
  next
    case (Some l)
    with Cons.IH show ?thesis
      by (simp add: Let_def process_voices_unbound)
  qed
qed

lemma process_keys_unbound:
  "\<exists>k \<in> set ks. \<exists>osc \<in> set (channel_voices st k). osc_playing osc \<Longrightarrow>
     process_keys None ks (st, dry) = Inl ReferenceError"
proof (induction ks arbitrary: st)
  case Nil
  then show ?case by simp
next
  case (Cons k ks)
  show ?case
  proof (cases "oscillators st k")
    case None
    then have "channel_voices st k = []" by (simp add: channel_voices_def)
    with Cons.prems have "\<exists>k \<in> set ks. \<exists>osc \<in> set (channel_voices st k). osc_playing osc"
      by auto
    from Cons.IH [OF this] None show ?thesis by (simp add: Let_def)
  next
    case (Some l)
    show ?thesis
    proof (cases "\<exists>osc \<in> set l. osc_playing osc")
      case True
      with Some show ?thesis by (simp add: Let_def process_voices_unbound)
    next
      case False
      define st1 where "st1 = st\<lparr>oscillators := (oscillators st)(k \<mapsto> [])\<rparr>"
      from False Some have "\<not> (\<exists>osc \<in> set (channel_voices st k). osc_playing osc)"
        by (simp add: channel_voices_def)
      with Cons.prems obtain k' osc where k': "k' \<in> set ks" "k' \<noteq> k"
        "osc \<in> set (channel_voices st k')" "osc_playing osc"
        by auto
      then have "osc \<in> set (channel_voices st1 k')"
        by (simp add: st1_def channel_voices_def)
      with k' have "\<exists>k \<in> set ks. \<exists>osc \<in> set (channel_voices st1 k). osc_playing osc"
        by blast
      from Cons.IH [OF this] False Some show ?thesis
        by (simp add: Let_def process_voices_unbound st1_def)
    qed
  qed
qed

lemma process_channels_unbound:
  assumes "ch0 \<in> set chs" and "channels c ch0 = Some st0" and "finite (dom (oscillators st0))"
    and "osc \<in> set (channel_voices st0 k)" and "osc_playing osc"
  shows "process_channels None chs (c, dry) = Inl ReferenceError"
  using assms(1,2)
proof (induction chs arbitrary: c dry)
  case Nil
  then show ?case by simp
next
  case (Cons ch chs)
  show ?case
  proof (cases "ch = ch0")
    case True
    have "oscillators st0 k \<noteq> None"
    proof
      assume "oscillators st0 k = None"
      then have "channel_voices st0 k = []" by (simp add: channel_voices_def)
      with assms(4) show False by simp
    qed
    then have "k \<in> set (sorted_list_of_set (dom (oscillators st0)))"
      using assms(3) by auto
    with assms(4,5)
    have "process_keys None (sorted_list_of_set (dom (oscillators st0))) (st0, dry)
            = Inl ReferenceError"
      by (intro process_keys_unbound) blast
    with True Cons.prems(2) show ?thesis by (simp add: Let_def)
  next
    case False
    with Cons.prems have in_rest: "ch0 \<in> set chs" by simp
    show ?thesis
    proof (cases "channels c ch")
      case None
      with Cons.IH [OF in_rest Cons.prems(2)] show ?thesis by (simp add: Let_def)
    next
      case (Some st)
      from process_keys_unbound_cases [of "sorted_list_of_set (dom (oscillators st))" "(st, dry)"]
      show ?thesis
      proof
        assume "process_keys None (sorted_list_of_set (dom (oscillators st))) (st, dry)
                  = Inl ReferenceError"
        with Some show ?thesis by (simp add: Let_def)
      next
        assume "\<exists>r. process_keys None (sorted_list_of_set (dom (oscillators st))) (st, dry) = Inr r"
        then obtain st1 dry1
          where r: "process_keys None (sorted_list_of_set (dom (oscillators st))) (st, dry)
                      = Inr (st1, dry1)"
          by (metis surj_pair)
        have "channels (c\<lparr>channels := (channels c)(ch \<mapsto> st1)\<rparr>) ch0 = Some st0"
          using False Cons.prems(2) by simp
        from Cons.IH [OF in_rest this] Some r show ?thesis by (simp add: Let_def)
      qed
    qed
  qed
qed

text \<open>
  With the identifier unbound, \<open>process\<close> raises whenever an oscillator is playing once
  the due events have been dispatched.
\<close>

lemma core_process_unbound:
  assumes "channels (fst (processScheduledEvents f c)) ch = Some st"
    and "finite (dom (channels (fst (processScheduledEvents f c))))"
    and "finite (dom (oscillators st))"
    and "osc \<in> set (channel_voices st k)" and "osc_playing osc"
  shows "core_process None f n c = Inl ReferenceError"
proof -
  have "ch \<in> set (sorted_list_of_set (dom (channels (fst (processScheduledEvents f c)))))"
    using assms(1,2) by auto
  from process_channels_unbound [OF this assms(1,3,4,5)] show ?thesis
    by (simp add: core_process_def Let_def)
qed


lemma example_first_dispatch:
  "channels (fst (processScheduledEvents 0 example_render_synth)) =
     [0 \<mapsto> initialChannelState
              \<lparr>oscillators := [60 \<mapsto> [fresh_voice 44100 60 100 (example_sample None)]]\<rparr>]"
proof -
  define c0 where "c0 = example_render_synth
      \<lparr>eventScheduler := (eventScheduler example_render_synth)
         \<lparr>scheduledEvents := [], currentEvents := []\<rparr>\<rparr>"
  have c0: "channels c0 = Map.empty" "core_sampleRate c0 = 44100"
    "currentEvents (eventScheduler c0) = []"
    by (simp_all add: c0_def example_render_synth_fields)
  have g: "core_getSamples 0 60 100 c0 = [example_sample None]"
    by (simp add: core_getSamples_def getChannelState_def c0 initialChannelState_def
          RHYTHM_CHANNEL_def c0_def example_render_synth_fields example_lookup)
  have cur: "currentEvents (eventScheduler (noteOn 0 60 100 c0)) = []"
    using sched_handleDelayableEvent [of "ChannelEvent 0 (NoteOn 60 100)" c0] c0 by simp
  have "process_reverb_events 0 example_render_synth = example_render_synth"
    by (subst process_reverb_events.simps) (simp add: example_render_synth_fields)
  then have "processScheduledEvents 0 example_render_synth =
          dispatch_events
            (example_render_synth
               \<lparr>eventScheduler := (eventScheduler example_render_synth)
                  \<lparr>scheduledEvents := [],
                   currentEvents := [scheduled_at 0 (ChannelEvent 0 (NoteOn 60 100)) 0 2]\<rparr>\<rparr>, [])"
    by (simp add: processScheduledEvents_def example_render_synth_fields Let_def sort_by_def
          scheduled_at_def)
  also have "\<dots> = dispatch_events
                     (noteOn 0 60 100 c0, [scheduled_at 0 (ChannelEvent 0 (NoteOn 60 100)) 0 2])"
    by (subst dispatch_events.simps) (simp add: c0_def scheduled_at_def)
  also have "\<dots> = (noteOn 0 60 100 c0, [scheduled_at 0 (ChannelEvent 0 (NoteOn 60 100)) 0 2])"
    by (subst dispatch_events.simps) (simp add: cur)
  finally have "fst (processScheduledEvents 0 example_render_synth) = noteOn 0 60 100 c0"
    by simp
  with noteOn_fresh_channel [OF c0(1) g] c0(2) show ?thesis by simp
qed

lemma example_first_buffer:
  "core_process None 0 500 example_render_synth = Inl ReferenceError"
proof (rule core_process_unbound)
  show "channels (fst (processScheduledEvents 0 example_render_synth)) 0 =
          Some (initialChannelState
              \<lparr>oscillators := [60 \<mapsto> [fresh_voice 44100 60 100 (example_sample None)]]\<rparr>)"
    by (simp add: example_first_dispatch)
  show "finite (dom (channels (fst (processScheduledEvents 0 example_render_synth))))"
    by (simp add: example_first_dispatch)
  show "finite (dom (oscillators (initialChannelState
              \<lparr>oscillators := [60 \<mapsto> [fresh_voice 44100 60 100 (example_sample None)]]\<rparr>)))"
    by simp
  show "fresh_voice 44100 60 100 (example_sample None)
          \<in> set (channel_voices (initialChannelState
              \<lparr>oscillators := [60 \<mapsto> [fresh_voice 44100 60 100 (example_sample None)]]\<rparr>) 60)"
    by (simp add: channel_voices_def)
  show "osc_playing (fresh_voice 44100 60 100 (example_sample None))"
    by (simp add: fresh_voice_def osc_noteOn_def)
qed

text \<open>
  C8, at the render job above, in a global scope that does not define \<open>sampleRate\<close>: no
  cancel predicate is given, the note starts in the first buffer, and \<open>renderAudio\<close>
  raises \<open>ReferenceError\<close> from \<open>getAmplitude\<close>.
\<close>

theorem renderAudio_raises_without_cancel:
  "renderAudio None example_sample_events example_note_events no_options = Inl ReferenceError"
proof -
  have len: "getSongLength example_note_events = 0"
    by (simp add: getSongLength_def example_note_events_def)
  have loop: "render_loop None None 500 0 441 0 (example_render_synth, ld, rd) = Inl ReferenceError"
    for ld rd
    by (subst render_loop.simps) (simp add: example_first_buffer)
  show ?thesis
    unfolding renderAudio_def no_options_def
    by (simp add: Let_def case_prod_unfold len silentTimeoutSec_def
          example_render_synth_def [symmetric] loop)
qed

text \<open>
  Where \<open>sampleRate\<close> is bound, the render loop raises only the cancellation failure,
  and only when a poll of the predicate holds.
\<close>

lemma render_loop_bound:
  assumes "never_cancels cancel"
  shows "\<exists>r. render_loop (Some g) cancel bufSize iterCount allIterCount i st = Inr r"
proof (induction n \<equiv> "nat (allIterCount - int i)" arbitrary: i st)
  case 0
  then have "\<not> int i < allIterCount" by simp
  then show ?case by (subst render_loop.simps) simp
next
  case (Suc n)
  then have lt: "int i < allIterCount" and n: "n = nat (allIterCount - int (Suc i))"
    by simp_all
  obtain synth1 buf
    where p: "core_process (Some g) (real (i * bufSize)) bufSize (fst st) = Inr (synth1, buf)"
    using core_process_bound [of g "real (i * bufSize)" bufSize "fst st"] by (metis surj_pair)
  have nc: "\<not> (case cancel of None \<Rightarrow> False | Some p \<Rightarrow> p i)"
    using assms by (simp add: never_cancels_def split: option.splits)
  from Suc.hyps(1) [OF n] lt p nc show ?case
    by (subst render_loop.simps) (simp add: Let_def)
qed

lemma render_loop_cancel_free:
  assumes "\<forall>i. \<not> p i"
  shows "render_loop ambient (Some p) bufSize iterCount allIterCount i st
           = render_loop ambient None bufSize iterCount allIterCount i st"
proof (induction n \<equiv> "nat (allIterCount - int i)" arbitrary: i st)
  case 0
  then have "\<not> int i < allIterCount" by simp
  then show ?case by (subst (1 2) render_loop.simps) simp
next
  case (Suc n)
  then have lt: "int i < allIterCount" and n: "n = nat (allIterCount - int (Suc i))"
    by simp_all
  from Suc.hyps(1) [OF n] lt assms show ?case
    by (subst (1 2) render_loop.simps) (simp add: Let_def split: sum.splits)
qed

lemma render_loop_cancelled:
  assumes "int i < allIterCount" and "int i \<le> iterCount" and "i mod 1000 = 0" and "p i"
  shows "render_loop (Some g) (Some p) bufSize iterCount allIterCount i st = Inl RenderCancelled"
proof -
  obtain synth1 buf
    where "core_process (Some g) (real (i * bufSize)) bufSize (fst st) = Inr (synth1, buf)"
    using core_process_bound [of g "real (i * bufSize)" bufSize "fst st"] by (metis surj_pair)
  with assms show ?thesis
    by (subst render_loop.simps) (simp add: Let_def)
qed

lemma renderAudio_bound:
  assumes "never_cancels (opt_cancel options)"
  shows "(\<exists>r. renderAudio (Some g) sampleEvents events options = Inr r)
       \<or> renderAudio (Some g) sampleEvents events options = Inl RangeError"
proof -
  define sr where "sr = (case opt_sampleRate options of None \<Rightarrow> 44100 | Some r \<Rightarrow> r)"
  define bs where "bs = (case opt_bufferSize options of None \<Rightarrow> 500 | Some b \<Rightarrow> b)"
  define synth where "synth = snd (add_events 0
            (fst (add_events 0 0 sampleEvents (new_SynthProcessorCore sr))) events
            (snd (add_events 0 0 sampleEvents (new_SynthProcessorCore sr))))"
  define ic where "ic = \<lceil>getSongLength events / real bs\<rceil>"
  define aic where "aic = ic + \<lceil>(silentTimeoutSec * sr) / real bs\<rceil>"
  obtain count l r where
    "render_loop (Some g) (opt_cancel options) bs ic aic 0
       (synth, replicate (nat (aic * int bs)) 0, replicate (nat (aic * int bs)) 0)
     = Inr (count, l, r)"
    using render_loop_bound [OF assms, of g bs ic aic 0] by (metis surj_pair)
  then show ?thesis
    unfolding renderAudio_def Let_def case_prod_unfold sr_def [symmetric] bs_def [symmetric]
      synth_def [symmetric] ic_def [symmetric] aic_def [symmetric]
    by simp
qed

lemma renderAudio_cancelled_at_first_poll:
  assumes "opt_cancel options = Some p" and "p 0"
    and "opt_sampleRate options = None" and "opt_bufferSize options = None"
    and "0 \<le> getSongLength events"
  shows "renderAudio (Some g) sampleEvents events options = Inl RenderCancelled"
proof -
  define ic where "ic = \<lceil>getSongLength events / 500\<rceil>"
  have ic: "0 \<le> ic" using assms(5) by (simp add: ic_def)
  have "render_loop (Some g) (Some p) 500 ic (ic + 441) 0 st = Inl RenderCancelled" for st
    using ic assms(2) by (intro render_loop_cancelled) simp_all
  with ic show ?thesis
    by (simp add: renderAudio_def Let_def case_prod_unfold assms(1,3,4) silentTimeoutSec_def
          ic_def [symmetric])
qed

end
